theory Spec2Isabelle
  imports Complex_Main "HOL-Library.Sublist" "HOL-Library.AList"
begin

section \<open>Data model\<close>

text \<open>
  The exceptions the modelled code can raise. \<open>Exception\<close> carries the arguments of the
  explicit \<^verbatim>\<open>raise Exception(...)\<close>; the others are the interpreter's own.
\<close>

datatype error =
    KeyError string
  | IndexError
  | RecursionError
  | AssertionError string
  | AttributeError
  | TypeError
  | ValueError
  | Exception "string list"

text \<open>
  \<^verbatim>\<open>layer.input\<close> is either one tensor or a list of tensors; a tensor is
  represented by its \<^verbatim>\<open>.name\<close>.
\<close>

datatype layer_input = Tensor string | TensorList "string list"

text \<open>
  \<^verbatim>\<open>node.inbound_layers\<close> is a layer (represented by its name) or a list of layers.
\<close>

datatype inbound = OneLayer string | LayerList "string list"

text \<open>A weight variable: \<^verbatim>\<open>var.name\<close> and the flattened \<^verbatim>\<open>var.numpy()\<close>, floats read as reals.\<close>

record var =
  var_name :: string
  var_values :: "real list"

text \<open>
  The attributes of a layer the code reads: \<^verbatim>\<open>name\<close>, \<^verbatim>\<open>input\<close>,
  \<^verbatim>\<open>get_config().get('activation')\<close>, \<^verbatim>\<open>weights\<close>,
  \<^verbatim>\<open>inbound_nodes[0].inbound_layers\<close> and the names of
  \<^verbatim>\<open>outbound_nodes[i].outbound_layer\<close>.
\<close>

record layer =
  name :: string
  input :: layer_input
  activation :: "string option"
  weights :: "var list"
  inbound_layers :: inbound
  outbound_layers :: "string list"

text \<open>A Python dict with string keys, in insertion order.\<close>

type_synonym shift_list = "(string \<times> int) list"

section \<open>Helpers for exceptions and loops\<close>

definition bind_err :: "error + 'a \<Rightarrow> ('a \<Rightarrow> error + 'b) \<Rightarrow> error + 'b" where
  "bind_err m f = (case m of Inl e \<Rightarrow> Inl e | Inr x \<Rightarrow> f x)"

text \<open>A \<^verbatim>\<open>for\<close> loop over a list that threads a state and stops at the first exception.\<close>

fun for_each :: "('a \<Rightarrow> 's \<Rightarrow> error + 's) \<Rightarrow> 'a list \<Rightarrow> 's \<Rightarrow> error + 's" where
  "for_each body [] s = Inr s"
| "for_each body (x # xs) s =
     (case body x s of Inl e \<Rightarrow> Inl e | Inr s' \<Rightarrow> for_each body xs s')"

text \<open>\<^verbatim>\<open>d[k]\<close> on a dict: the value, or \<^verbatim>\<open>KeyError\<close>.\<close>

definition getitem :: "(string \<times> 'v) list \<Rightarrow> string \<Rightarrow> error + 'v" where
  "getitem d k = (case map_of d k of None \<Rightarrow> Inl (KeyError k) | Some v \<Rightarrow> Inr v)"

section \<open>Layer classification by name\<close>

text \<open>\<^verbatim>\<open>"input" in layer.name\<close>; the argument is the \<^verbatim>\<open>.name\<close> of a layer or of a tensor.\<close>

definition is_input_layer :: "string \<Rightarrow> bool" where
  "is_input_layer nm = sublist ''input'' nm"

definition is_shift_layer :: "layer \<Rightarrow> error + bool" where
  "is_shift_layer l =
     (if sublist ''input'' (name l) \<or>
         sublist ''conv2d'' (name l) \<or>
         sublist ''conv1d'' (name l) \<or>
         sublist ''dense'' (name l) \<or>
         sublist ''softmax'' (name l) \<or>
         sublist ''sigmoid'' (name l) \<or>
         sublist ''tanh'' (name l) \<or>
         (sublist ''add'' (name l) \<and> \<not> sublist ''zero'' (name l)) \<or>
         sublist ''subtract'' (name l) \<or>
         sublist ''multiply'' (name l)
      then Inr True
      else if sublist ''activation'' (name l)
      then (case activation l of
              None \<Rightarrow> Inl (KeyError ''activation'')
            | Some a \<Rightarrow> Inr (a = ''softmax'' \<or> a = ''sigmoid'' \<or> a = ''tanh''))
      else Inr False)"

definition is_shift_fixed :: "layer \<Rightarrow> error + bool" where
  "is_shift_fixed l =
     (if sublist ''softmax'' (name l) \<or>
         sublist ''sigmoid'' (name l) \<or>
         sublist ''tanh'' (name l)
      then Inr True
      else if sublist ''activation'' (name l)
      then (case activation l of
              None \<Rightarrow> Inl (KeyError ''activation'')
            | Some a \<Rightarrow> Inr (a = ''softmax'' \<or> a = ''sigmoid'' \<or> a = ''tanh''))
      else Inr False)"

section \<open>The shift reconciler: \<^verbatim>\<open>layers_output_ranges\<close>\<close>

text \<open>\<^verbatim>\<open>layer.name.split('/')[0]\<close>\<close>

definition get_iname :: "string \<Rightarrow> string" where
  "get_iname nm = takeWhile (\<lambda>c. c \<noteq> CHR ''/'') nm"

text \<open>\<^verbatim>\<open>layers = init_layer.input; if not isinstance(layers, list): layers = [layers]\<close>\<close>

fun input_list :: "layer_input \<Rightarrow> string list" where
  "input_list (Tensor t) = [t]"
| "input_list (TensorList ts) = ts"

text \<open>
  \<^verbatim>\<open>layer_dict[layer.name] = layer\<close> for every layer of the model, in order: a later
  layer of the same name replaces an earlier one.
\<close>

definition layer_dict :: "layer list \<Rightarrow> (string \<times> layer) list" where
  "layer_dict layers = fold (\<lambda>l d. AList.update (name l) l d) layers []"

text \<open>
  The recursive closure \<^verbatim>\<open>update_previous_layer_shift\<close>. The dict \<^verbatim>\<open>shift_list\<close> it
  mutates is passed in and returned. The first argument bounds the depth of the recursion,
  as the interpreter's recursion limit does: a chain of predecessors deeper than that
  raises \<^verbatim>\<open>RecursionError\<close>.
\<close>

primrec update_previous_layer_shift ::
  "nat \<Rightarrow> (string \<times> layer) list \<Rightarrow> layer \<Rightarrow> int \<Rightarrow> bool \<Rightarrow> shift_list \<Rightarrow> error + shift_list"
where
  "update_previous_layer_shift 0 ld init_layer Qmin skip_input shift_list = Inl RecursionError"
| "update_previous_layer_shift (Suc depth) ld init_layer Qmin skip_input shift_list =
     for_each
       (\<lambda>t sl.
          if skip_input \<and> is_input_layer t then Inr sl
          else
            (let iname = get_iname t;
                 sl' = AList.update iname Qmin sl
             in bind_err (getitem ld iname) (\<lambda>l.
                bind_err (is_shift_layer l) (\<lambda>b.
                  if \<not> b then update_previous_layer_shift depth ld l Qmin True sl'
                  else Inr sl'))))
       (input_list (input init_layer)) shift_list"

text \<open>
  \<^verbatim>\<open>Qmin = shift_list[get_iname(layer.input[0])]\<close> followed by the loop taking the minimum
  over all inputs.
\<close>

definition determine_Qmin :: "shift_list \<Rightarrow> string list \<Rightarrow> error + int" where
  "determine_Qmin shift_list inputs =
     (case inputs of
        [] \<Rightarrow> Inl IndexError
      | t0 # _ \<Rightarrow>
          bind_err (getitem shift_list (get_iname t0)) (\<lambda>q0.
            for_each
              (\<lambda>inp Qmin. bind_err (getitem shift_list (get_iname inp))
                             (\<lambda>v. Inr (min Qmin v)))
              inputs q0))"

text \<open>The body of the backward loop of \<^verbatim>\<open>layers_output_ranges\<close> for one layer.\<close>

definition reconcile_layer ::
  "nat \<Rightarrow> (string \<times> layer) list \<Rightarrow> layer \<Rightarrow> shift_list \<Rightarrow> error + shift_list"
where
  "reconcile_layer depth ld l shift_list =
     (case input l of
        Tensor _ \<Rightarrow> Inr shift_list
      | TensorList inputs \<Rightarrow>
          bind_err (determine_Qmin shift_list inputs) (\<lambda>Qmin.
          bind_err (update_previous_layer_shift depth ld l Qmin False shift_list) (\<lambda>sl.
          bind_err (is_shift_layer l) (\<lambda>b.
            if \<not> b then Inr (AList.update (name l) Qmin sl)
            else bind_err (getitem sl (name l)) (\<lambda>v.
                   if Qmin < v then Inr (AList.update (name l) Qmin sl) else Inr sl)))))"

text \<open>
  \<^verbatim>\<open>layers_output_ranges\<close>, from the table that \<^verbatim>\<open>make_initial_shift_list\<close> returns
  (the calibration itself evaluates the network on sample data and is a parameter here):
  the loop \<^verbatim>\<open>for layer in reversed(model.layers[1:])\<close>.
\<close>

definition layers_output_ranges ::
  "nat \<Rightarrow> layer list \<Rightarrow> shift_list \<Rightarrow> error + shift_list"
where
  "layers_output_ranges depth layers initial_shift_list =
     for_each (reconcile_layer depth (layer_dict layers)) (rev (tl layers)) initial_shift_list"

text \<open>\<^verbatim>\<open>isinstance(layer.input, list)\<close>\<close>

definition has_input_list :: "layer \<Rightarrow> bool" where
  "has_input_list l = (case input l of Tensor _ \<Rightarrow> False | TensorList _ \<Rightarrow> True)"

subsection \<open>The names the recursion assigns\<close>

text \<open>
  \<open>written depth ld init_layer skip_input\<close> lists, in order, the keys that
  \<open>update_previous_layer_shift\<close> assigns; it follows the same recursion and raises the
  same exceptions, and does not look at the table. \<open>push_all\<close> performs the
  assignments.
\<close>

fun concat_err :: "('a \<Rightarrow> error + 'b list) \<Rightarrow> 'a list \<Rightarrow> error + 'b list" where
  "concat_err f [] = Inr []"
| "concat_err f (x # xs) =
     (case f x of
        Inl e \<Rightarrow> Inl e
      | Inr a \<Rightarrow> (case concat_err f xs of Inl e \<Rightarrow> Inl e | Inr b \<Rightarrow> Inr (a @ b)))"

primrec written :: "nat \<Rightarrow> (string \<times> layer) list \<Rightarrow> layer \<Rightarrow> bool \<Rightarrow> error + string list" where
  "written 0 ld init_layer skip_input = Inl RecursionError"
| "written (Suc depth) ld init_layer skip_input =
     concat_err
       (\<lambda>t. if skip_input \<and> is_input_layer t then Inr []
            else bind_err (getitem ld (get_iname t)) (\<lambda>l.
                 bind_err (is_shift_layer l) (\<lambda>b.
                   if \<not> b then bind_err (written depth ld l True) (\<lambda>ns. Inr (get_iname t # ns))
                   else Inr [get_iname t])))
       (input_list (input init_layer))"

definition push_all :: "int \<Rightarrow> string list \<Rightarrow> shift_list \<Rightarrow> shift_list" where
  "push_all q ns sl = fold (\<lambda>n. AList.update n q) ns sl"

text \<open>
  The predecessor chains of a layer: a direct input is on a chain (unless inputs are
  skipped and it is one), and so is whatever is on a chain of a direct input's layer when
  that layer is not a shift layer. Inputs are skipped from the second level on.
\<close>

inductive pushed :: "(string \<times> layer) list \<Rightarrow> bool \<Rightarrow> layer \<Rightarrow> string \<Rightarrow> bool"
  for ld :: "(string \<times> layer) list"
where
  direct: "t \<in> set (input_list (input l)) \<Longrightarrow> \<not> (skip \<and> is_input_layer t)
             \<Longrightarrow> pushed ld skip l (get_iname t)"
| through: "t \<in> set (input_list (input l)) \<Longrightarrow> \<not> (skip \<and> is_input_layer t)
             \<Longrightarrow> map_of ld (get_iname t) = Some l' \<Longrightarrow> is_shift_layer l' = Inr False
             \<Longrightarrow> pushed ld True l' n \<Longrightarrow> pushed ld skip l n"

text \<open>
  One iteration of the loop of \<open>written\<close>, with the recursive call as a parameter.
\<close>

definition wstep ::
  "(layer \<Rightarrow> bool \<Rightarrow> error + string list) \<Rightarrow> (string \<times> layer) list \<Rightarrow> bool \<Rightarrow> string
     \<Rightarrow> error + string list"
where
  "wstep r ld skip t =
     (if skip \<and> is_input_layer t then Inr []
      else bind_err (getitem ld (get_iname t)) (\<lambda>l.
           bind_err (is_shift_layer l) (\<lambda>b.
             if \<not> b then bind_err (r l True) (\<lambda>ns. Inr (get_iname t # ns))
             else Inr [get_iname t])))"

text \<open>
  The predecessor chains of a layer end: every tensor the recursion visits names a layer of
  the dictionary whose classification raises nothing, and the chains through layers that
  are not shift layers are finite.
\<close>

inductive chains_end :: "(string \<times> layer) list \<Rightarrow> bool \<Rightarrow> layer \<Rightarrow> bool"
  for ld :: "(string \<times> layer) list"
where
  "(\<forall>t \<in> set (input_list (input l)). \<not> (skip \<and> is_input_layer t) \<longrightarrow>
      (\<exists>l'. map_of ld (get_iname t) = Some l' \<and>
         (is_shift_layer l' = Inr True \<or>
          (is_shift_layer l' = Inr False \<and> chains_end ld True l'))))
   \<Longrightarrow> chains_end ld skip l"

section \<open>The format calibrator: \<^verbatim>\<open>get_int_bits\<close>, \<^verbatim>\<open>dec_bits_by_kld\<close>\<close>

text \<open>
  \<^verbatim>\<open>int(np.ceil(np.log2(max([abs(min_value), abs(max_value), 1e-10]))))\<close>, with the
  floating-point numbers read as reals.
\<close>

definition get_int_bits :: "real \<Rightarrow> real \<Rightarrow> int" where
  "get_int_bits min_value max_value =
     \<lceil>log 2 (max (max \<bar>min_value\<bar> \<bar>max_value\<bar>) (1 / 10 ^ 10))\<rceil>"

text \<open>
  \<^verbatim>\<open>np.argmin\<close>: the first index of the least element (the list is never empty where
  it is used).
\<close>

fun argmin :: "real list \<Rightarrow> nat" where
  "argmin [] = 0"
| "argmin (x # xs) = (if \<forall>y \<in> set xs. x \<le> y then 0 else Suc (argmin xs))"

text \<open>
  \<^verbatim>\<open>dec_bits_by_kld\<close>. The histograms and \<^verbatim>\<open>scipy.stats.entropy\<close> are library
  computations on the sampled activations; \<open>kld shift\<close> stands for the divergence
  the loop body computes in iteration \<open>shift\<close>.
\<close>

definition dec_bits_by_kld :: "(nat \<Rightarrow> real) \<Rightarrow> int \<Rightarrow> int" where
  "dec_bits_by_kld kld dec_bits =
     (let kld_loss = map kld [0..<4];
          kld_shifts = map (\<lambda>shift. dec_bits + int shift) [0..<4]
      in kld_shifts ! argmin kld_loss)"

text \<open>
  The part of the layer loop of \<^verbatim>\<open>make_initial_shift_list\<close> that derives
  \<^verbatim>\<open>dec_bits\<close> from the extreme values of \<^verbatim>\<open>features\<close>.
\<close>

definition initial_dec_bits ::
  "string \<Rightarrow> layer \<Rightarrow> real \<Rightarrow> real \<Rightarrow> (nat \<Rightarrow> real) \<Rightarrow> error + int"
where
  "initial_dec_bits quantize_method l min_val max_val kld =
     (let int_bits = get_int_bits min_val max_val;
          dec_bits = 7 - int_bits
      in if sublist ''kld'' quantize_method
         then bind_err (is_shift_fixed l) (\<lambda>fixed.
                if \<not> fixed \<and> \<not> is_input_layer (name l) \<and> \<not> sublist ''dense'' (name l)
                then Inr (dec_bits_by_kld kld dec_bits)
                else Inr dec_bits)
         else Inr dec_bits)"

section \<open>The tensor quantizer: \<^verbatim>\<open>generate_weights\<close>\<close>

text \<open>\<^verbatim>\<open>np.round\<close> rounds to the nearest integer, a tie to the even neighbour.\<close>

definition np_round :: "real \<Rightarrow> int" where
  "np_round x =
     (let f = \<lfloor>x\<rfloor>; d = x - of_int f
      in if d < 1 / 2 then f
         else if 1 / 2 < d then f + 1
         else if even f then f else f + 1)"

text \<open>
  What is recorded for one variable: the entry of \<^verbatim>\<open>layer_quantize_info\<close>
  (\<^verbatim>\<open>min\<close>, \<^verbatim>\<open>max\<close>, \<^verbatim>\<open>data_width\<close>) and of \<^verbatim>\<open>layer_weights\<close>
  (the rounded values, which are also the integers written to the file).
\<close>

record quantize_info =
  min_value :: real
  max_value :: real
  data_width :: int
  quantized :: "int list"

text \<open>\<^verbatim>\<open>layer.input.name.replace(':', '/').split('/')[0]\<close>\<close>

definition input_iname :: "string \<Rightarrow> string" where
  "input_iname nm = takeWhile (\<lambda>c. c \<noteq> CHR ''/'' \<and> c \<noteq> CHR '':'') nm"

text \<open>
  The body of \<^verbatim>\<open>for var in layer.weights\<close>. The state is \<^verbatim>\<open>weight_dec_shift\<close>
  and the dict of what has been recorded for the layer.
\<close>

definition quantize_var ::
  "shift_list option \<Rightarrow> layer \<Rightarrow> var \<Rightarrow> int \<times> (string \<times> quantize_info) list
     \<Rightarrow> error + int \<times> (string \<times> quantize_info) list"
where
  "quantize_var shift_list l v st =
     (case st of (weight_dec_shift, info) \<Rightarrow>
      let is_kernel = sublist ''kernel'' (var_name v)
      in if \<not> is_kernel \<and> \<not> sublist ''bias'' (var_name v) then Inr st
         else if var_values v = [] then Inl ValueError
         else
           let mn = Min (set (var_values v));
               mx = Max (set (var_values v));
               int_bits = get_int_bits mn mx;
               dec_bits = 7 - int_bits
           in
           bind_err (is_shift_layer l) (\<lambda>shift_layer.
           bind_err
             (if shift_layer then
                (case shift_list of
                   None \<Rightarrow> Inl (AssertionError (name l))
                 | Some sl \<Rightarrow>
                     if sl = [] then Inl (AssertionError (name l))
                     else
                       (case input l of
                          TensorList _ \<Rightarrow> Inl AttributeError
                        | Tensor t \<Rightarrow>
                            bind_err (getitem sl (input_iname t)) (\<lambda>input_encoding.
                              if is_kernel then Inr (dec_bits, False)
                              else Inr (weight_dec_shift,
                                        input_encoding + weight_dec_shift - dec_bits < 0))))
              else Inr (weight_dec_shift, False))
             (\<lambda>(weight_dec_shift1, bSameAsKernel).
                let (weight_dec_shift2, dec_bits2) =
                      (if shift_list = None \<or> bSameAsKernel then
                         (if is_kernel then (dec_bits, dec_bits)
                          else if dec_bits > weight_dec_shift1
                               then (weight_dec_shift1, weight_dec_shift1)
                               else (weight_dec_shift1, dec_bits))
                       else (weight_dec_shift1, dec_bits))
                in Inr (weight_dec_shift2,
                        AList.update (var_name v)
                          \<lparr>min_value = mn, max_value = mx, data_width = dec_bits2,
                           quantized = map (\<lambda>x. np_round (x * 2 powr real_of_int dec_bits2))
                                         (var_values v)\<rparr>
                          info))))"

text \<open>\<^verbatim>\<open>x.name\<close> and \<^verbatim>\<open>x[0].name\<close> where \<open>x\<close> is a layer or a list of layers.\<close>

fun dot_name :: "inbound \<Rightarrow> error + string" where
  "dot_name (OneLayer n) = Inr n"
| "dot_name (LayerList ns) = Inl AttributeError"

fun first_dot_name :: "inbound \<Rightarrow> error + string" where
  "first_dot_name (OneLayer n) = Inl TypeError"
| "first_dot_name (LayerList []) = Inl IndexError"
| "first_dot_name (LayerList (n # ns)) = Inr n"

text \<open>The check "before merging bn layer, check if the bn is legally after Conv".\<close>

definition check_bn_after_conv :: "layer \<Rightarrow> error + unit" where
  "check_bn_after_conv l =
     (if sublist ''batch_normalization'' (name l) then
        bind_err (dot_name (inbound_layers l)) (\<lambda>p.
          if \<not> sublist ''conv'' p then
            bind_err (first_dot_name (inbound_layers l)) (\<lambda>p0.
              Inl (Exception [''Currently only support batch_normalization after conv'',
                              name l, p0]))
          else Inr ())
      else Inr ())"

text \<open>
  The body of \<^verbatim>\<open>for layer in model.layers\<close>. \<open>fuse_bn_to_conv l\<close> stands for the
  weights of \<open>l\<close> after \<^verbatim>\<open>fuse_bn_to_conv(layer)\<close> has rewritten them (floating-point
  arithmetic on the arrays).
\<close>

definition generate_layer_weights ::
  "(layer \<Rightarrow> var list) \<Rightarrow> shift_list option \<Rightarrow> layer
     \<Rightarrow> (string \<times> (string \<times> quantize_info) list) list
     \<Rightarrow> error + (string \<times> (string \<times> quantize_info) list) list"
where
  "generate_layer_weights fuse_bn_to_conv shift_list l layer_quantize_info =
     (if weights l = [] then Inr layer_quantize_info
      else
        bind_err (check_bn_after_conv l) (\<lambda>_.
          let ws = (if sublist ''conv'' (name l) \<and> outbound_layers l \<noteq> [] \<and>
                       sublist ''batch_normalization'' (hd (outbound_layers l))
                    then fuse_bn_to_conv l else weights l)
          in bind_err (for_each (quantize_var shift_list l) ws (0, [])) (\<lambda>(_, info).
               Inr (AList.update (name l) info layer_quantize_info))))"

text \<open>
  \<^verbatim>\<open>generate_weights\<close>. \<open>x_test\<close> is \<open>None\<close> when no calibration data is given,
  and otherwise holds the table \<^verbatim>\<open>make_initial_shift_list\<close> derives from the data.
\<close>

definition generate_weights ::
  "nat \<Rightarrow> (layer \<Rightarrow> var list) \<Rightarrow> layer list \<Rightarrow> shift_list option
     \<Rightarrow> error + (string \<times> (string \<times> quantize_info) list) list \<times> shift_list option"
where
  "generate_weights depth fuse_bn_to_conv layers x_test =
     bind_err
       (case x_test of
          None \<Rightarrow> Inr None
        | Some initial \<Rightarrow>
            bind_err (layers_output_ranges depth layers initial) (\<lambda>sl. Inr (Some sl)))
       (\<lambda>shift_list.
          bind_err (for_each (generate_layer_weights fuse_bn_to_conv shift_list) layers [])
            (\<lambda>layer_quantize_info. Inr (layer_quantize_info, shift_list)))"

section \<open>Example graphs\<close>

text \<open>
  A layer as the reconciler sees it: it reads the name, the input tensors and the
  activation entry of the configuration only.
\<close>

definition graph_layer :: "string \<Rightarrow> layer_input \<Rightarrow> layer" where
  "graph_layer n i =
     \<lparr>name = n, input = i, activation = Some ''linear'', weights = [],
      inbound_layers = LayerList [], outbound_layers = []\<rparr>"

text \<open>
  Three convolutions on one input; \<open>add\<close> sums the first two, \<open>add_1\<close> the last two,
  so that \<open>conv2d_1\<close> feeds both merge nodes.
\<close>

definition shared_graph :: "layer list" where
  "shared_graph =
     [graph_layer ''input_1'' (Tensor ''input_1''),
      graph_layer ''conv2d'' (Tensor ''input_1''),
      graph_layer ''conv2d_1'' (Tensor ''input_1''),
      graph_layer ''conv2d_2'' (Tensor ''input_1''),
      graph_layer ''add'' (TensorList [''conv2d/BiasAdd:0'', ''conv2d_1/BiasAdd:0'']),
      graph_layer ''add_1'' (TensorList [''conv2d_1/BiasAdd:0'', ''conv2d_2/BiasAdd:0''])]"

definition shared_table :: shift_list where
  "shared_table =
     [(''input_1'', 7), (''conv2d'', 3), (''conv2d_1'', 5), (''conv2d_2'', 5),
      (''add'', 2), (''add_1'', 4)]"

text \<open>
  \<^verbatim>\<open>7 - get_int_bits(np.min(var_values), np.max(var_values))\<close>: the fractional bits
  a variable gets from its own extreme values.
\<close>

definition own_dec_bits :: "var \<Rightarrow> int" where
  "own_dec_bits v = 7 - get_int_bits (Min (set (var_values v))) (Max (set (var_values v)))"

text \<open>Divergences that fall with the iteration: the last candidate is the best.\<close>

definition example_kld :: "nat \<Rightarrow> real" where
  "example_kld shift = 3 - real shift"

text \<open>A convolution on the input, its kernel reaching 1.\<close>

definition conv_example :: layer where
  "conv_example =
     \<lparr>name = ''conv2d'', input = Tensor ''input_1'', activation = Some ''linear'',
      weights = [\<lparr>var_name = ''conv2d/kernel:0'', var_values = [1, - 1 / 2]\<rparr>,
                 \<lparr>var_name = ''conv2d/bias:0'', var_values = [3 / 16]\<rparr>],
      inbound_layers = OneLayer ''input_1'', outbound_layers = []\<rparr>"

definition conv_table :: shift_list where
  "conv_table = [(''input_1'', 7), (''conv2d'', 5)]"

definition kernel_one :: var where
  "kernel_one = \<lparr>var_name = ''conv2d/kernel:0'', var_values = [1, - (1 / 2)]\<rparr>"

text \<open>A dense layer followed by a batch normalization.\<close>

definition dense_example :: layer where
  "dense_example =
     \<lparr>name = ''dense'', input = Tensor ''input_1'', activation = Some ''linear'',
      weights = [\<lparr>var_name = ''dense/kernel:0'', var_values = [1 / 2, - (1 / 4)]\<rparr>,
                 \<lparr>var_name = ''dense/bias:0'', var_values = [1 / 8]\<rparr>],
      inbound_layers = OneLayer ''input_1'', outbound_layers = [''batch_normalization'']\<rparr>"

definition bn_example :: layer where
  "bn_example =
     \<lparr>name = ''batch_normalization'', input = Tensor ''dense/BiasAdd:0'',
      activation = None,
      weights = [\<lparr>var_name = ''batch_normalization/gamma:0'', var_values = [1]\<rparr>,
                 \<lparr>var_name = ''batch_normalization/beta:0'', var_values = [0]\<rparr>,
                 \<lparr>var_name = ''batch_normalization/moving_mean:0'', var_values = [0]\<rparr>,
                 \<lparr>var_name = ''batch_normalization/moving_variance:0'', var_values = [1]\<rparr>],
      inbound_layers = OneLayer ''dense'', outbound_layers = []\<rparr>"

definition dense_bn_graph :: "layer list" where
  "dense_bn_graph = [graph_layer ''input_1'' (Tensor ''input_1''), dense_example, bn_example]"

definition dense_bn_table :: shift_list where
  "dense_bn_table = [(''input_1'', 7), (''dense'', 6), (''batch_normalization'', 6)]"

text \<open>A convolution with a kernel up to 3 and a bias up to 5 (or a small bias).\<close>

definition kernel_example :: var where
  "kernel_example = \<lparr>var_name = ''conv2d/kernel:0'', var_values = [3, - 1]\<rparr>"

definition bias_example :: var where
  "bias_example = \<lparr>var_name = ''conv2d/bias:0'', var_values = [5, 0]\<rparr>"

definition wide_conv :: layer where
  "wide_conv =
     \<lparr>name = ''conv2d'', input = Tensor ''input_1'', activation = Some ''linear'',
      weights = [kernel_example, bias_example],
      inbound_layers = OneLayer ''input_1'', outbound_layers = []\<rparr>"

definition small_bias :: var where
  "small_bias = \<lparr>var_name = ''conv2d/bias:0'', var_values = [1 / 8]\<rparr>"

text \<open>
  Graphs for the reconciler: two branches meeting in an add (one through a pooling layer);
  an add fed by the input itself; an add fed by a pooling of the input; a sigmoid
  activation multiplied with a convolution; a merge layer with \<open>softmax\<close> in
  its name; and a sigmoid activation after an add.
\<close>

definition two_branch_graph :: "layer list" where
  "two_branch_graph =
     [graph_layer ''input_1'' (Tensor ''input_1''),
      graph_layer ''conv2d'' (Tensor ''input_1''),
      graph_layer ''max_pooling2d'' (Tensor ''conv2d/Relu:0''),
      graph_layer ''conv2d_1'' (Tensor ''input_1''),
      graph_layer ''add'' (TensorList [''max_pooling2d/MaxPool:0'', ''conv2d_1/BiasAdd:0''])]"

definition two_branch_table :: shift_list where
  "two_branch_table =
     [(''input_1'', 7), (''conv2d'', 5), (''max_pooling2d'', 5), (''conv2d_1'', 3), (''add'', 3)]"

definition residual_graph :: "layer list" where
  "residual_graph =
     [graph_layer ''input_1'' (Tensor ''input_1''),
      graph_layer ''conv2d'' (Tensor ''input_1''),
      graph_layer ''add'' (TensorList [''input_1'', ''conv2d/BiasAdd:0''])]"

definition residual_table :: shift_list where
  "residual_table = [(''input_1'', 7), (''conv2d'', 4), (''add'', 4)]"

definition pooled_input_graph :: "layer list" where
  "pooled_input_graph =
     [graph_layer ''input_1'' (Tensor ''input_1''),
      graph_layer ''max_pooling2d'' (Tensor ''input_1''),
      graph_layer ''conv2d'' (Tensor ''input_1''),
      graph_layer ''add'' (TensorList [''max_pooling2d/MaxPool:0'', ''conv2d/BiasAdd:0''])]"

definition pooled_input_table :: shift_list where
  "pooled_input_table = [(''input_1'', 7), (''max_pooling2d'', 7), (''conv2d'', 4), (''add'', 4)]"

definition sigmoid_layer :: "string \<Rightarrow> layer" where
  "sigmoid_layer t = (graph_layer ''activation'' (Tensor t))\<lparr>activation := Some ''sigmoid''\<rparr>"

definition sigmoid_mul_graph :: "layer list" where
  "sigmoid_mul_graph =
     [graph_layer ''input_1'' (Tensor ''input_1''),
      graph_layer ''conv2d'' (Tensor ''input_1''),
      sigmoid_layer ''conv2d/BiasAdd:0'',
      graph_layer ''conv2d_1'' (Tensor ''input_1''),
      graph_layer ''multiply'' (TensorList [''activation/Sigmoid:0'', ''conv2d_1/BiasAdd:0''])]"

definition sigmoid_mul_table :: shift_list where
  "sigmoid_mul_table =
     [(''input_1'', 7), (''conv2d'', 5), (''activation'', 7), (''conv2d_1'', 3), (''multiply'', 2)]"

definition softmax_merge :: layer where
  "softmax_merge =
     graph_layer ''softmax_merge'' (TensorList [''conv2d/BiasAdd:0'', ''conv2d_1/BiasAdd:0''])"

definition softmax_merge_graph :: "layer list" where
  "softmax_merge_graph =
     [graph_layer ''input_1'' (Tensor ''input_1''),
      graph_layer ''conv2d'' (Tensor ''input_1''),
      graph_layer ''conv2d_1'' (Tensor ''input_1''),
      softmax_merge]"

definition softmax_merge_table :: shift_list where
  "softmax_merge_table =
     [(''input_1'', 7), (''conv2d'', 5), (''conv2d_1'', 5), (''softmax_merge'', 7)]"

definition tail_graph :: "layer list" where
  "tail_graph =
     [graph_layer ''input_1'' (Tensor ''input_1''),
      graph_layer ''conv2d'' (Tensor ''input_1''),
      graph_layer ''conv2d_1'' (Tensor ''input_1''),
      graph_layer ''add'' (TensorList [''conv2d/BiasAdd:0'', ''conv2d_1/BiasAdd:0'']),
      sigmoid_layer ''add/add:0'']"

definition tail_table :: shift_list where
  "tail_table =
     [(''input_1'', 7), (''conv2d'', 5), (''conv2d_1'', 3), (''add'', 4), (''activation'', 7)]"

section \<open>Evaluation of the examples\<close>

lemmas eval_defs =
  layers_output_ranges_def layer_dict_def reconcile_layer_def determine_Qmin_def
  bind_err_def getitem_def is_shift_layer_def is_shift_fixed_def get_iname_def
  is_input_layer_def graph_layer_def sublist_code prefix_code eval_nat_numeral

section \<open>Bounds on the integer bits\<close>

lemma ceiling_log2_bracket:
  fixes m :: real
  assumes "0 < m"
  shows "m \<le> 2 powr real_of_int \<lceil>log 2 m\<rceil>"
    and "2 powr (real_of_int \<lceil>log 2 m\<rceil> - 1) < m"
proof -
  have "log 2 m \<le> real_of_int \<lceil>log 2 m\<rceil>" by simp
  then show "m \<le> 2 powr real_of_int \<lceil>log 2 m\<rceil>"
    using assms by (simp add: le_powr_iff)
  have "real_of_int \<lceil>log 2 m\<rceil> - 1 < log 2 m" by linarith
  then show "2 powr (real_of_int \<lceil>log 2 m\<rceil> - 1) < m"
    using assms by (simp add: powr_less_iff)
qed

lemma ceiling_log2_eqI:
  fixes m :: real
  assumes "2 powr (real_of_int k - 1) < m" "m \<le> 2 powr real_of_int k"
  shows "\<lceil>log 2 m\<rceil> = k"
proof -
  have m: "0 < m"
    using assms(1) powr_gt_zero[of 2 "real_of_int k - 1"] by linarith
  have "real_of_int k - 1 < log 2 m" using assms(1) m by (simp add: less_log_iff)
  moreover have "log 2 m \<le> real_of_int k" using assms(2) m by (simp add: log_le_iff)
  ultimately show ?thesis by (simp add: ceiling_eq_iff)
qed

lemma get_int_bits_eqI:
  assumes "2 powr (real_of_int k - 1) < max (max \<bar>mn\<bar> \<bar>mx\<bar>) (1 / 10 ^ 10)"
    and "max (max \<bar>mn\<bar> \<bar>mx\<bar>) (1 / 10 ^ 10) \<le> 2 powr real_of_int k"
  shows "get_int_bits mn mx = k"
  unfolding get_int_bits_def using assms by (rule ceiling_log2_eqI)

lemmas quant_defs =
  generate_weights_def generate_layer_weights_def check_bn_after_conv_def quantize_var_def
  np_round_def input_iname_def Let_def

lemma ib1: "get_int_bits (- (1 / 2)) 1 = 0" by (rule get_int_bits_eqI) simp_all
lemma ib2: "get_int_bits (3 / 16) (3 / 16) = - 2"
  by (rule get_int_bits_eqI) (simp_all add: powr_minus)

lemma ib3: "get_int_bits (- (1 / 4)) (1 / 2) = - 1"
  by (rule get_int_bits_eqI) (simp_all add: powr_minus)
lemma ib4: "get_int_bits (1 / 8) (1 / 8) = - 3"
  by (rule get_int_bits_eqI) (simp_all add: powr_minus)

lemma ib5: "get_int_bits (- 1) 3 = 2" by (rule get_int_bits_eqI) simp_all
lemma ib6: "get_int_bits 0 5 = 3" by (rule get_int_bits_eqI) simp_all

lemma own_dec_bits_kernel_example: "own_dec_bits kernel_example = 5"
  by (simp add: own_dec_bits_def kernel_example_def ib5)

lemma own_dec_bits_bias_example: "own_dec_bits bias_example = 4"
  by (simp add: own_dec_bits_def bias_example_def ib6)

lemma get_int_bits_scaled_le:
  "max (max \<bar>mn\<bar> \<bar>mx\<bar>) (1 / 10 ^ 10) * 2 powr real_of_int (7 - get_int_bits mn mx) \<le> 128"
proof -
  define m where "m = max (max \<bar>mn\<bar> \<bar>mx\<bar>) (1 / 10 ^ 10)"
  have m: "0 < m" by (simp add: m_def less_max_iff_disj)
  have k: "get_int_bits mn mx = \<lceil>log 2 m\<rceil>" by (simp add: get_int_bits_def m_def)
  have "m * 2 powr real_of_int (7 - \<lceil>log 2 m\<rceil>)
          \<le> 2 powr real_of_int \<lceil>log 2 m\<rceil> * 2 powr real_of_int (7 - \<lceil>log 2 m\<rceil>)"
    using ceiling_log2_bracket(1)[OF m] by (simp add: mult_right_mono)
  also have "\<dots> = 2 powr 7" by (simp flip: powr_add)
  finally show ?thesis unfolding k m_def by simp
qed

lemma get_int_bits_scaled_gt:
  "64 < max (max \<bar>mn\<bar> \<bar>mx\<bar>) (1 / 10 ^ 10) * 2 powr real_of_int (7 - get_int_bits mn mx)"
proof -
  define m where "m = max (max \<bar>mn\<bar> \<bar>mx\<bar>) (1 / 10 ^ 10)"
  have m: "0 < m" by (simp add: m_def less_max_iff_disj)
  have k: "get_int_bits mn mx = \<lceil>log 2 m\<rceil>" by (simp add: get_int_bits_def m_def)
  have "2 powr (real_of_int \<lceil>log 2 m\<rceil> - 1) * 2 powr real_of_int (7 - \<lceil>log 2 m\<rceil>)
          < m * 2 powr real_of_int (7 - \<lceil>log 2 m\<rceil>)"
    using ceiling_log2_bracket(2)[OF m] by (simp add: mult_strict_right_mono)
  moreover have "2 powr (real_of_int \<lceil>log 2 m\<rceil> - 1) * 2 powr real_of_int (7 - \<lceil>log 2 m\<rceil>)
                   = 2 powr 6" by (simp flip: powr_add)
  moreover have "(2::real) powr 6 = 64" by simp
  ultimately show ?thesis unfolding k m_def by linarith
qed

lemma np_round_nearest: "\<bar>real_of_int (np_round x) - x\<bar> \<le> 1 / 2"
  unfolding np_round_def Let_def by (auto; linarith)

lemma np_round_le: "x \<le> real_of_int n \<Longrightarrow> np_round x \<le> n"
  unfolding np_round_def Let_def by (auto; linarith)

lemma np_round_ge: "real_of_int n \<le> x \<Longrightarrow> n \<le> np_round x"
  unfolding np_round_def Let_def by (auto; linarith)

lemma quantize_var_recorded:
  assumes "quantize_var shift_list l v (w, info) = Inr (w', info')"
    and "sublist ''kernel'' (var_name v) \<or> sublist ''bias'' (var_name v)"
  shows "var_values v \<noteq> [] \<and>
         (\<exists>d. d \<le> 7 - get_int_bits (Min (set (var_values v))) (Max (set (var_values v)))
            \<and> info' = AList.update (var_name v)
                 \<lparr>min_value = Min (set (var_values v)), max_value = Max (set (var_values v)),
                  data_width = d,
                  quantized = map (\<lambda>x. np_round (x * 2 powr real_of_int d)) (var_values v)\<rparr>
                 info)"
  using assms unfolding quantize_var_def Let_def bind_err_def
  apply (auto split: if_splits sum.splits option.splits layer_input.splits prod.splits)
   apply (rule exI[of _ w'], simp)+
  done

lemma scaled_value_bounds:
  assumes x: "x \<in> set vs"
    and d: "d \<le> 7 - get_int_bits (Min (set vs)) (Max (set vs))"
  shows "- 128 \<le> x * 2 powr real_of_int d" and "x * 2 powr real_of_int d \<le> 128"
proof -
  let ?mn = "Min (set vs)" and ?mx = "Max (set vs)"
  define m where "m = max (max \<bar>?mn\<bar> \<bar>?mx\<bar>) (1 / 10 ^ 10)"
  have "?mn \<le> x" "x \<le> ?mx" using x by simp_all
  then have ax: "\<bar>x\<bar> \<le> m" unfolding m_def by linarith
  have "2 powr real_of_int d \<le> 2 powr real_of_int (7 - get_int_bits ?mn ?mx)"
    using d by simp
  then have "\<bar>x\<bar> * 2 powr real_of_int d \<le> m * 2 powr real_of_int (7 - get_int_bits ?mn ?mx)"
    using ax by (intro mult_mono) simp_all
  also have "\<dots> \<le> 128" unfolding m_def by (rule get_int_bits_scaled_le)
  finally have b: "\<bar>x * 2 powr real_of_int d\<bar> \<le> 128" by (simp add: abs_mult)
  show "- 128 \<le> x * 2 powr real_of_int d" using b by linarith
  show "x * 2 powr real_of_int d \<le> 128" using b by linarith
qed

section \<open>Selection of the least divergence\<close>

lemma argmin_less: "xs \<noteq> [] \<Longrightarrow> argmin xs < length xs"
proof (induction xs)
  case Nil
  then show ?case by simp
next
  case (Cons x xs)
  then show ?case by (cases xs) auto
qed

lemma argmin_least: "j < length xs \<Longrightarrow> xs ! argmin xs \<le> xs ! j"
proof (induction xs arbitrary: j)
  case Nil
  then show ?case by simp
next
  case (Cons x xs)
  show ?case
  proof (cases "\<forall>y \<in> set xs. x \<le> y")
    case True
    then show ?thesis using Cons.prems by (cases j) auto
  next
    case False
    then obtain y where y: "y \<in> set xs" "y < x" by force
    then obtain i where i: "i < length xs" "xs ! i = y" by (auto simp: in_set_conv_nth)
    have "xs ! argmin xs \<le> xs ! i" using Cons.IH[OF i(1)] .
    then have lt: "xs ! argmin xs < x" using y i by simp
    have am: "argmin (x # xs) = Suc (argmin xs)" using False by simp
    show ?thesis
    proof (cases j)
      case 0
      then show ?thesis unfolding am using lt by simp
    next
      case (Suc j')
      then show ?thesis unfolding am using Cons.IH[of j'] Cons.prems by simp
    qed
  qed
qed

lemma argmin_first: "j < argmin xs \<Longrightarrow> xs ! argmin xs < xs ! j"
proof (induction xs arbitrary: j)
  case Nil
  then show ?case by simp
next
  case (Cons x xs)
  show ?case
  proof (cases "\<forall>y \<in> set xs. x \<le> y")
    case True
    then show ?thesis using Cons.prems by simp
  next
    case False
    then obtain y where y: "y \<in> set xs" "y < x" by force
    then obtain i where i: "i < length xs" "xs ! i = y" by (auto simp: in_set_conv_nth)
    have "xs ! argmin xs \<le> xs ! i" using argmin_least[OF i(1)] .
    then have lt: "xs ! argmin xs < x" using y i by simp
    have am: "argmin (x # xs) = Suc (argmin xs)" using False by simp
    show ?thesis
    proof (cases j)
      case 0
      then show ?thesis unfolding am using lt by simp
    next
      case (Suc j')
      have "j' < argmin xs" using Cons.prems[unfolded am] Suc by simp
      then have "xs ! argmin xs < xs ! j'" by (rule Cons.IH)
      then show ?thesis unfolding am Suc by simp
    qed
  qed
qed

lemma dec_bits_by_kld_selects:
  "\<exists>i<4. dec_bits_by_kld kld dec_bits = dec_bits + int i
         \<and> (\<forall>j<4. kld i \<le> kld j) \<and> (\<forall>j<i. kld i < kld j)"
proof -
  let ?xs = "map kld [0..<4]"
  let ?i = "argmin ?xs"
  have len: "length ?xs = 4" by simp
  have i4: "?i < 4" using argmin_less[of ?xs] by simp
  have sel: "dec_bits_by_kld kld dec_bits = dec_bits + int ?i"
    unfolding dec_bits_by_kld_def Let_def using i4 by (simp del: upt_Suc)
  have nth: "\<And>j. j < 4 \<Longrightarrow> ?xs ! j = kld j"
    by (simp del: upt_Suc)
  have least: "\<forall>j<4. kld ?i \<le> kld j"
  proof (intro allI impI)
    fix j :: nat assume j: "j < 4"
    have "?xs ! ?i \<le> ?xs ! j" using argmin_least[of j ?xs] j by (simp del: upt_Suc)
    then show "kld ?i \<le> kld j" using nth[OF j] nth[OF i4] by simp
  qed
  have first: "\<forall>j<?i. kld ?i < kld j"
  proof (intro allI impI)
    fix j :: nat assume j: "j < ?i"
    then have j4: "j < 4" using i4 by simp
    have "?xs ! ?i < ?xs ! j" using argmin_first[OF j] .
    then show "kld ?i < kld j" using nth[OF j4] nth[OF i4] by simp
  qed
  show ?thesis using i4 sel least first by blast
qed

lemma example_kld_sel: "dec_bits_by_kld example_kld d = d + 3"
  by (simp add: dec_bits_by_kld_def example_kld_def eval_nat_numeral upt_rec)

section \<open>The variable loop\<close>

lemma quantize_var_kernel:
  assumes "is_shift_layer l = Inr True" "input l = Tensor t"
    and "map_of sl (input_iname t) = Some input_shift"
    and "sublist ''kernel'' (var_name k)" "var_values k \<noteq> []"
  shows "quantize_var (Some sl) l k (w, info) =
           Inr (own_dec_bits k,
                AList.update (var_name k)
                  \<lparr>min_value = Min (set (var_values k)), max_value = Max (set (var_values k)),
                   data_width = own_dec_bits k,
                   quantized = map (\<lambda>x. np_round (x * 2 powr real_of_int (own_dec_bits k)))
                                 (var_values k)\<rparr> info)"
proof -
  have "sl \<noteq> []" using assms(3) by auto
  then show ?thesis
    using assms unfolding quantize_var_def Let_def bind_err_def getitem_def own_dec_bits_def
    by simp
qed

lemma quantize_var_bias:
  assumes "is_shift_layer l = Inr True" "input l = Tensor t"
    and "map_of sl (input_iname t) = Some input_shift"
    and "\<not> sublist ''kernel'' (var_name b)" "sublist ''bias'' (var_name b)"
    and "var_values b \<noteq> []"
  shows "quantize_var (Some sl) l b (w, info) =
           Inr (w,
                AList.update (var_name b)
                  \<lparr>min_value = Min (set (var_values b)), max_value = Max (set (var_values b)),
                   data_width = (if input_shift + w - own_dec_bits b < 0 \<and> w < own_dec_bits b
                                 then w else own_dec_bits b),
                   quantized = map (\<lambda>x. np_round (x * 2 powr real_of_int
                                   (if input_shift + w - own_dec_bits b < 0 \<and> w < own_dec_bits b
                                    then w else own_dec_bits b)))
                                 (var_values b)\<rparr> info)"
proof -
  have "sl \<noteq> []" using assms(3) by auto
  then show ?thesis
    using assms unfolding quantize_var_def Let_def bind_err_def getitem_def own_dec_bits_def
    by simp
qed

lemma for_each_error:
  assumes "x \<in> set xs" and "\<And>s. \<exists>e. body x s = Inl e"
  shows "\<exists>e. for_each body xs s = Inl e"
  using assms(1)
proof (induction xs arbitrary: s)
  case Nil
  then show ?case by simp
next
  case (Cons y ys)
  show ?case
  proof (cases "body y s")
    case (Inl e)
    then show ?thesis by simp
  next
    case (Inr s')
    show ?thesis
    proof (cases "x = y")
      case True
      then show ?thesis using assms(2)[of s] Inr by simp
    next
      case False
      then have "x \<in> set ys" using Cons.prems by simp
      then show ?thesis using Cons.IH[of s'] Inr by simp
    qed
  qed
qed

lemma check_bn_after_conv_ok:
  "check_bn_after_conv l = Inr () \<longleftrightarrow>
     (sublist ''batch_normalization'' (name l) \<longrightarrow>
        (\<exists>p. inbound_layers l = OneLayer p \<and> sublist ''conv'' p))"
  unfolding check_bn_after_conv_def bind_err_def
  by (cases "inbound_layers l") (auto split: sum.splits)

lemma check_bn_after_conv_cases: "check_bn_after_conv l = Inr () \<or> (\<exists>e. check_bn_after_conv l = Inl e)"
  by (cases "check_bn_after_conv l") auto

lemma generate_layer_weights_bn_error:
  assumes "weights l \<noteq> []" and "check_bn_after_conv l \<noteq> Inr ()"
  shows "\<exists>e. generate_layer_weights fuse shift_list l acc = Inl e"
  using assms check_bn_after_conv_cases[of l]
  unfolding generate_layer_weights_def bind_err_def by auto

section \<open>The recursive push as a list of assignments\<close>

lemma push_all_append: "push_all q (a @ b) sl = push_all q b (push_all q a sl)"
  by (simp add: push_all_def)

lemma push_all_Cons: "push_all q (n # ns) sl = push_all q ns (AList.update n q sl)"
  by (simp add: push_all_def)

lemma push_all_Nil: "push_all q [] sl = sl"
  by (simp add: push_all_def)

lemma map_of_push_all:
  "map_of (push_all q ns sl) n = (if n \<in> set ns then Some q else map_of sl n)"
  by (induction ns arbitrary: sl) (auto simp: push_all_Nil push_all_Cons update_conv')

lemma push_all_triv: "\<forall>n \<in> set ns. map_of sl n = Some q \<Longrightarrow> push_all q ns sl = sl"
  by (induction ns arbitrary: sl) (auto simp: push_all_Nil push_all_Cons update_triv)

lemma for_each_concat_err:
  assumes "\<And>t sl. body t sl = bind_err (f t) (\<lambda>ns. Inr (push_all q ns sl))"
  shows "for_each body ts sl = bind_err (concat_err f ts) (\<lambda>ns. Inr (push_all q ns sl))"
proof (induction ts arbitrary: sl)
  case Nil
  then show ?case by (simp add: bind_err_def push_all_Nil)
next
  case (Cons t ts)
  have step: "body t sl = bind_err (f t) (\<lambda>ns. Inr (push_all q ns sl))" by (rule assms)
  show ?case
  proof (cases "f t")
    case (Inl e)
    then have "body t sl = Inl e" using step by (simp add: bind_err_def)
    then show ?thesis using Inl by (simp add: bind_err_def)
  next
    case a: (Inr a)
    then have b: "body t sl = Inr (push_all q a sl)" using step by (simp add: bind_err_def)
    have "for_each body (t # ts) sl = for_each body ts (push_all q a sl)"
      using b by simp
    also have "\<dots> = bind_err (concat_err f ts) (\<lambda>ns. Inr (push_all q ns (push_all q a sl)))"
      by (rule Cons.IH)
    also have "\<dots> = bind_err (concat_err f (t # ts)) (\<lambda>ns. Inr (push_all q ns sl))"
      using a by (cases "concat_err f ts") (simp_all add: bind_err_def push_all_append)
    finally show ?thesis .
  qed
qed

lemma update_previous_layer_shift_written:
  "update_previous_layer_shift depth ld l q skip sl =
     bind_err (written depth ld l skip) (\<lambda>ns. Inr (push_all q ns sl))"
proof (induction depth arbitrary: l skip sl)
  case 0
  then show ?case by (simp add: bind_err_def)
next
  case (Suc depth)
  show ?case
    unfolding update_previous_layer_shift.simps written.simps
  proof (rule for_each_concat_err)
    fix t sl
    show "(if skip \<and> is_input_layer t then Inr sl
           else let iname = get_iname t; sl' = AList.update iname q sl
                in bind_err (getitem ld iname) (\<lambda>l.
                   bind_err (is_shift_layer l) (\<lambda>b.
                     if \<not> b then update_previous_layer_shift depth ld l q True sl'
                     else Inr sl'))) =
          bind_err (if skip \<and> is_input_layer t then Inr []
                    else bind_err (getitem ld (get_iname t)) (\<lambda>l.
                         bind_err (is_shift_layer l) (\<lambda>b.
                           if \<not> b then bind_err (written depth ld l True)
                                          (\<lambda>ns. Inr (get_iname t # ns))
                           else Inr [get_iname t])))
            (\<lambda>ns. Inr (push_all q ns sl))"
    proof (cases "skip \<and> is_input_layer t")
      case True
      then show ?thesis by (simp add: bind_err_def push_all_Nil)
    next
      case False
      show ?thesis
      proof (cases "getitem ld (get_iname t)")
        case (Inl e)
        then show ?thesis using False by (auto simp add: bind_err_def Let_def push_all_Nil)
      next
        case l': (Inr l')
        show ?thesis
        proof (cases "is_shift_layer l'")
          case (Inl e)
          then show ?thesis using False l' by (auto simp add: bind_err_def Let_def push_all_Nil)
        next
          case (Inr b)
          show ?thesis
          proof (cases b)
            case True
            then show ?thesis using False l' Inr
              by (auto simp add: bind_err_def Let_def push_all_Cons push_all_Nil)
          next
            case nb: False
            show ?thesis
            proof (cases "written depth ld l' True")
              case (Inl e)
              then show ?thesis using False l' Inr nb
                by (auto simp add: Suc.IH bind_err_def Let_def push_all_Nil)
            next
              case ns: (Inr ns)
              then show ?thesis using False l' Inr nb
                by (auto simp add: Suc.IH bind_err_def Let_def push_all_Cons push_all_Nil)
            qed
          qed
        qed
      qed
    qed
  qed
qed

section \<open>The assigned names are the predecessor chains\<close>

lemma concat_err_member:
  assumes "concat_err f ts = Inr ns" and "n \<in> set ns"
  shows "\<exists>t \<in> set ts. \<exists>a. f t = Inr a \<and> n \<in> set a"
  using assms
proof (induction ts arbitrary: ns)
  case Nil
  then show ?case by simp
next
  case (Cons t ts)
  then show ?case by (auto split: sum.splits)
qed

lemma concat_err_subset:
  assumes "concat_err f ts = Inr ns" and "t \<in> set ts"
  shows "\<exists>a. f t = Inr a \<and> set a \<subseteq> set ns"
  using assms
proof (induction ts arbitrary: ns)
  case Nil
  then show ?case by simp
next
  case (Cons u ts)
  then show ?case by (auto split: sum.splits) blast+
qed

lemma written_step_Inr:
  assumes "(if skip \<and> is_input_layer t then Inr []
            else bind_err (getitem ld (get_iname t)) (\<lambda>l.
                 bind_err (is_shift_layer l) (\<lambda>b.
                   if \<not> b then bind_err (written depth ld l True)
                                  (\<lambda>ns. Inr (get_iname t # ns))
                   else Inr [get_iname t]))) = Inr a"
  shows "(skip \<and> is_input_layer t \<and> a = []) \<or>
         (\<not> (skip \<and> is_input_layer t) \<and>
          (\<exists>l. map_of ld (get_iname t) = Some l \<and>
            ((is_shift_layer l = Inr True \<and> a = [get_iname t]) \<or>
             (is_shift_layer l = Inr False \<and>
              (\<exists>ns. written depth ld l True = Inr ns \<and> a = get_iname t # ns)))))"
  using assms
  by (auto simp: bind_err_def getitem_def split: if_splits sum.splits option.splits)

lemma written_sound:
  "written depth ld l skip = Inr ns \<Longrightarrow> n \<in> set ns \<Longrightarrow> pushed ld skip l n"
proof (induction depth arbitrary: l skip ns n)
  case 0
  then show ?case by simp
next
  case (Suc depth)
  from Suc.prems obtain t a where t: "t \<in> set (input_list (input l))"
    and a: "(if skip \<and> is_input_layer t then Inr []
            else bind_err (getitem ld (get_iname t)) (\<lambda>l.
                 bind_err (is_shift_layer l) (\<lambda>b.
                   if \<not> b then bind_err (written depth ld l True)
                                  (\<lambda>ns. Inr (get_iname t # ns))
                   else Inr [get_iname t]))) = Inr a"
    and n: "n \<in> set a"
    unfolding written.simps by (blast dest: concat_err_member)
  from written_step_Inr[OF a] n show ?case
  proof (elim disjE conjE exE)
    assume "a = []" then show ?thesis using n by simp
  next
    fix l' assume "\<not> (skip \<and> is_input_layer t)" "a = [get_iname t]"
    then show ?thesis using n t by (auto intro: pushed.direct)
  next
    fix l' ns' assume ns: "\<not> (skip \<and> is_input_layer t)" "map_of ld (get_iname t) = Some l'"
      "is_shift_layer l' = Inr False" "written depth ld l' True = Inr ns'" "a = get_iname t # ns'"
    show ?thesis
    proof (cases "n = get_iname t")
      case True
      then show ?thesis using t ns(1) by (auto intro: pushed.direct)
    next
      case False
      then have "n \<in> set ns'" using n ns(5) by simp
      then have "pushed ld True l' n" using Suc.IH[OF ns(4)] by simp
      then show ?thesis using t ns by (auto intro: pushed.through)
    qed
  qed
qed

lemma written_complete:
  "pushed ld skip l n \<Longrightarrow> written depth ld l skip = Inr ns \<Longrightarrow> n \<in> set ns"
proof (induction arbitrary: depth ns rule: pushed.induct)
  case (direct t l skip)
  then obtain d where d: "depth = Suc d" by (cases depth) auto
  from direct(3) obtain a where
    a: "(if skip \<and> is_input_layer t then Inr []
            else bind_err (getitem ld (get_iname t)) (\<lambda>l.
                 bind_err (is_shift_layer l) (\<lambda>b.
                   if \<not> b then bind_err (written d ld l True)
                                  (\<lambda>ns. Inr (get_iname t # ns))
                   else Inr [get_iname t]))) = Inr a"
    and sub: "set a \<subseteq> set ns"
    unfolding d written.simps using concat_err_subset[OF _ direct(1)] by blast
  from written_step_Inr[OF a] direct(2) have "get_iname t \<in> set a" by auto
  then show ?case using sub by blast
next
  case (through t l skip l' n)
  then obtain d where d: "depth = Suc d" by (cases depth) auto
  from through(7) obtain a where
    a: "(if skip \<and> is_input_layer t then Inr []
            else bind_err (getitem ld (get_iname t)) (\<lambda>l.
                 bind_err (is_shift_layer l) (\<lambda>b.
                   if \<not> b then bind_err (written d ld l True)
                                  (\<lambda>ns. Inr (get_iname t # ns))
                   else Inr [get_iname t]))) = Inr a"
    and sub: "set a \<subseteq> set ns"
    unfolding d written.simps using concat_err_subset[OF _ through(1)] by blast
  from written_step_Inr[OF a] through(2,3,4) obtain ns' where
    "written d ld l' True = Inr ns'" "a = get_iname t # ns'" by auto
  then have "n \<in> set a" using through(6)[of d ns'] by simp
  then show ?case using sub by blast
qed

lemma pushed_written:
  "written depth ld l skip = Inr ns \<Longrightarrow> pushed ld skip l n \<longleftrightarrow> n \<in> set ns"
  using written_sound written_complete by blast

lemma is_input_layer_get_iname: "is_input_layer (get_iname t) \<Longrightarrow> is_input_layer t"
  unfolding is_input_layer_def get_iname_def
  using sublist_order.order.trans sublist_takeWhile by blast

lemma pushed_skip_not_input: "pushed ld skip l n \<Longrightarrow> skip \<Longrightarrow> \<not> is_input_layer n"
proof (induction rule: pushed.induct)
  case (direct t l skip)
  then show ?case using is_input_layer_get_iname by blast
next
  case (through t l skip l' n)
  then show ?case by simp
qed

lemma pushed_input_direct:
  assumes "pushed ld False l n" and "is_input_layer n"
  shows "n \<in> get_iname ` set (input_list (input l))"
  using assms(1)
proof (cases rule: pushed.cases)
  case (direct t)
  then show ?thesis by auto
next
  case (through t l')
  then show ?thesis using pushed_skip_not_input assms(2) by blast
qed

section \<open>One step of the backward sweep\<close>

lemma Qmin_loop:
  fixes sl :: shift_list
  assumes "for_each (\<lambda>inp Qmin. bind_err (getitem sl (get_iname inp)) (\<lambda>v. Inr (min Qmin v)))
             ts q0 = Inr q"
  shows "q \<le> q0 \<and> (\<forall>t \<in> set ts. \<exists>v. map_of sl (get_iname t) = Some v \<and> q \<le> v)
         \<and> (q = q0 \<or> (\<exists>t \<in> set ts. map_of sl (get_iname t) = Some q))"
  using assms
proof (induction ts arbitrary: q0)
  case Nil
  then show ?case by simp
next
  case (Cons t ts)
  from Cons.prems obtain v where v: "map_of sl (get_iname t) = Some v"
    and r: "for_each (\<lambda>inp Qmin. bind_err (getitem sl (get_iname inp)) (\<lambda>v. Inr (min Qmin v)))
             ts (min q0 v) = Inr q"
    by (auto simp: bind_err_def getitem_def split: option.splits sum.splits)
  from Cons.IH[OF r] have ih: "q \<le> min q0 v"
    "\<forall>t \<in> set ts. \<exists>v. map_of sl (get_iname t) = Some v \<and> q \<le> v"
    "q = min q0 v \<or> (\<exists>t \<in> set ts. map_of sl (get_iname t) = Some q)" by auto
  show ?case
  proof (intro conjI)
    show "q \<le> q0" using ih(1) by simp
    show "\<forall>t \<in> set (t # ts). \<exists>v. map_of sl (get_iname t) = Some v \<and> q \<le> v"
      using ih(1,2) v by auto
    show "q = q0 \<or> (\<exists>t \<in> set (t # ts). map_of sl (get_iname t) = Some q)"
      using ih(3) v by (auto simp: min_def split: if_splits)
  qed
qed

lemma determine_Qmin_min:
  assumes "determine_Qmin sl ts = Inr q"
  shows "ts \<noteq> [] \<and> (\<forall>t \<in> set ts. \<exists>v. map_of sl (get_iname t) = Some v \<and> q \<le> v)
         \<and> (\<exists>t \<in> set ts. map_of sl (get_iname t) = Some q)"
proof -
  from assms obtain t0 ts' q0 where ts: "ts = t0 # ts'"
    and q0: "map_of sl (get_iname t0) = Some q0"
    and r: "for_each (\<lambda>inp Qmin. bind_err (getitem sl (get_iname inp)) (\<lambda>v. Inr (min Qmin v)))
             ts q0 = Inr q"
    unfolding determine_Qmin_def
    by (auto simp: bind_err_def getitem_def split: list.splits option.splits sum.splits)
  from Qmin_loop[OF r] q0 ts show ?thesis by auto
qed

lemma Qmin_loop_const:
  fixes sl :: shift_list
  assumes "\<forall>t \<in> set ts. map_of sl (get_iname t) = Some q"
  shows "for_each (\<lambda>inp Qmin. bind_err (getitem sl (get_iname inp)) (\<lambda>v. Inr (min Qmin v)))
             ts q = Inr q"
  using assms by (induction ts) (auto simp: bind_err_def getitem_def)

lemma determine_Qmin_const:
  assumes "ts \<noteq> []" and "\<forall>t \<in> set ts. map_of sl (get_iname t) = Some q"
  shows "determine_Qmin sl ts = Inr q"
proof -
  obtain t0 ts' where ts: "ts = t0 # ts'" using assms(1) by (cases ts) auto
  have "map_of sl (get_iname t0) = Some q" using assms(2) ts by simp
  then show ?thesis
    unfolding determine_Qmin_def ts
    using Qmin_loop_const[OF assms(2)[unfolded ts]]
    by (simp add: bind_err_def getitem_def)
qed

lemma reconcile_layer_Inr:
  assumes "reconcile_layer depth ld l sl = Inr sl'" and "input l = TensorList ts"
  shows "\<exists>q ns b. determine_Qmin sl ts = Inr q \<and> written depth ld l False = Inr ns
           \<and> is_shift_layer l = Inr b
           \<and> ((\<not> b \<and> sl' = AList.update (name l) q (push_all q ns sl))
              \<or> (b \<and> (\<exists>v. map_of (push_all q ns sl) (name l) = Some v
                      \<and> sl' = (if q < v then AList.update (name l) q (push_all q ns sl)
                               else push_all q ns sl))))"
  using assms unfolding reconcile_layer_def update_previous_layer_shift_written
  by (auto simp: bind_err_def getitem_def split: sum.splits option.splits if_splits)

lemma reconcile_layer_Tensor: "input l = Tensor t \<Longrightarrow> reconcile_layer depth ld l sl = Inr sl"
  by (simp add: reconcile_layer_def)

lemma direct_inputs_written:
  assumes "written depth ld l False = Inr ns" and "t \<in> set (input_list (input l))"
  shows "get_iname t \<in> set ns"
  using pushed_written[OF assms(1)] pushed.direct[OF assms(2), of False ld] by simp

lemma reconcile_layer_map:
  assumes "reconcile_layer depth ld l sl = Inr sl'" and "input l = TensorList ts"
  shows "\<exists>q. determine_Qmin sl ts = Inr q
           \<and> (\<forall>n. pushed ld False l n \<longrightarrow> map_of sl' n = Some q)
           \<and> (\<forall>n. \<not> pushed ld False l n \<and> n \<noteq> name l \<longrightarrow> map_of sl' n = map_of sl n)
           \<and> (map_of sl' (name l) = Some q \<or> map_of sl' (name l) = map_of sl (name l))"
proof -
  from reconcile_layer_Inr[OF assms] obtain q ns b where
    q: "determine_Qmin sl ts = Inr q" and ns: "written depth ld l False = Inr ns"
    and b: "is_shift_layer l = Inr b"
    and sl': "(\<not> b \<and> sl' = AList.update (name l) q (push_all q ns sl))
              \<or> (b \<and> (\<exists>v. map_of (push_all q ns sl) (name l) = Some v
                      \<and> sl' = (if q < v then AList.update (name l) q (push_all q ns sl)
                               else push_all q ns sl)))" by blast
  have p: "pushed ld False l n \<longleftrightarrow> n \<in> set ns" for n by (rule pushed_written[OF ns])
  from sl' have m: "map_of sl' = map_of (push_all q ns sl)
                    \<or> map_of sl' = (map_of (push_all q ns sl))(name l \<mapsto> q)"
    by (auto simp: update_conv' split: if_splits)
  show ?thesis
    using q m by (auto simp: p map_of_push_all)
qed

lemma reconcile_layer_frame:
  assumes "reconcile_layer depth ld l sl = Inr sl'"
    and "\<forall>ts. input l = TensorList ts \<longrightarrow> \<not> pushed ld False l n \<and> n \<noteq> name l"
  shows "map_of sl' n = map_of sl n"
proof (cases "input l")
  case (Tensor t)
  then show ?thesis using assms(1) by (simp add: reconcile_layer_Tensor)
next
  case (TensorList ts)
  from reconcile_layer_map[OF assms(1) TensorList] assms(2) TensorList
  show ?thesis by auto
qed

lemma sweep_frame:
  assumes "for_each (reconcile_layer depth ld) ls sl = Inr sl'"
    and "\<forall>l \<in> set ls. \<forall>ts. input l = TensorList ts \<longrightarrow> \<not> pushed ld False l n \<and> n \<noteq> name l"
  shows "map_of sl' n = map_of sl n"
  using assms
proof (induction ls arbitrary: sl)
  case Nil
  then show ?case by simp
next
  case (Cons l ls)
  from Cons.prems(1) obtain sl1 where s1: "reconcile_layer depth ld l sl = Inr sl1"
    and r: "for_each (reconcile_layer depth ld) ls sl1 = Inr sl'"
    by (auto split: sum.splits)
  have "map_of sl1 n = map_of sl n"
    using reconcile_layer_frame[OF s1] Cons.prems(2) by simp
  moreover have "map_of sl' n = map_of sl1 n"
    using Cons.IH[OF r] Cons.prems(2) by simp
  ultimately show ?case by simp
qed

lemma is_shift_fixed_is_shift_layer:
  "is_shift_fixed f = Inr True \<Longrightarrow> is_shift_layer f = Inr True"
  unfolding is_shift_fixed_def is_shift_layer_def
  by (auto split: if_splits option.splits)

lemma reconcile_layer_own:
  assumes "reconcile_layer depth ld l sl = Inr sl'" and "input l = TensorList ts"
    and "is_shift_layer l = Inr True" and "\<not> pushed ld False l (name l)"
  shows "\<exists>q. determine_Qmin sl ts = Inr q
            \<and> map_of sl' (name l) = map_option (min q) (map_of sl (name l))"
proof -
  from reconcile_layer_Inr[OF assms(1,2)] assms(3) obtain q ns v where
    q: "determine_Qmin sl ts = Inr q" and ns: "written depth ld l False = Inr ns"
    and v: "map_of (push_all q ns sl) (name l) = Some v"
    and sl': "sl' = (if q < v then AList.update (name l) q (push_all q ns sl)
                     else push_all q ns sl)" by auto
  have "name l \<notin> set ns" using assms(4) pushed_written[OF ns] by simp
  then have v0: "map_of sl (name l) = Some v" using v by (simp add: map_of_push_all)
  have "map_of sl' (name l) = Some (min q v)"
    using sl' v by (auto simp: update_conv' min_def)
  then show ?thesis using q v0 by simp
qed

lemma reconcile_layer_idem:
  assumes "reconcile_layer depth ld l sl = Inr sl1"
  shows "reconcile_layer depth ld l sl1 = Inr sl1"
proof (cases "input l")
  case (Tensor t)
  then show ?thesis by (simp add: reconcile_layer_Tensor)
next
  case (TensorList ts)
  from reconcile_layer_Inr[OF assms TensorList] obtain q ns b where
    q: "determine_Qmin sl ts = Inr q" and ns: "written depth ld l False = Inr ns"
    and b: "is_shift_layer l = Inr b"
    and sl1: "(\<not> b \<and> sl1 = AList.update (name l) q (push_all q ns sl))
              \<or> (b \<and> (\<exists>v. map_of (push_all q ns sl) (name l) = Some v
                      \<and> sl1 = (if q < v then AList.update (name l) q (push_all q ns sl)
                               else push_all q ns sl)))" by blast
  have ne: "ts \<noteq> []" using determine_Qmin_min[OF q] by simp
  have m: "map_of sl1 = map_of (push_all q ns sl)
           \<or> map_of sl1 = (map_of (push_all q ns sl))(name l \<mapsto> q)"
    using sl1 by (auto simp: update_conv' split: if_splits)
  have all_q: "\<forall>n \<in> set ns. map_of sl1 n = Some q"
    using m by (auto simp: map_of_push_all)
  have "\<forall>t \<in> set ts. get_iname t \<in> set ns"
    using direct_inputs_written[OF ns] TensorList by simp
  then have q1: "determine_Qmin sl1 ts = Inr q"
    using all_q by (intro determine_Qmin_const[OF ne]) simp
  have p1: "push_all q ns sl1 = sl1" by (rule push_all_triv[OF all_q])
  show ?thesis
  proof (cases b)
    case False
    then have "map_of sl1 (name l) = Some q" using sl1 by (auto simp: update_conv')
    then have "AList.update (name l) q sl1 = sl1" by (rule update_triv)
    then show ?thesis
      using False b q1 ns p1 TensorList
      unfolding reconcile_layer_def update_previous_layer_shift_written
      by (simp add: bind_err_def)
  next
    case True
    then obtain v where v: "map_of (push_all q ns sl) (name l) = Some v"
      and s: "sl1 = (if q < v then AList.update (name l) q (push_all q ns sl)
                     else push_all q ns sl)" using sl1 by auto
    have "\<exists>v'. map_of sl1 (name l) = Some v' \<and> \<not> q < v'"
      using v s by (auto simp: update_conv')
    then show ?thesis
      using True b q1 ns p1 TensorList
      unfolding reconcile_layer_def update_previous_layer_shift_written
      by (auto simp: bind_err_def getitem_def)
  qed
qed

lemma for_each_filter:
  assumes "\<And>x s. \<not> P x \<Longrightarrow> body x s = Inr s"
  shows "for_each body xs s = for_each body (filter P xs) s"
proof (induction xs arbitrary: s)
  case Nil
  then show ?case by simp
next
  case (Cons x xs)
  then show ?case using assms[of x s] by (cases "P x") (auto split: sum.splits)
qed

lemma sweep_single:
  assumes "length (filter has_input_list ls) \<le> 1"
    and "for_each (reconcile_layer depth ld) ls sl = Inr sl1"
  shows "for_each (reconcile_layer depth ld) ls sl1 = Inr sl1"
proof -
  have skip: "\<And>l s. \<not> has_input_list l \<Longrightarrow> reconcile_layer depth ld l s = Inr s"
    by (auto simp: has_input_list_def reconcile_layer_def split: layer_input.splits)
  have eq: "for_each (reconcile_layer depth ld) ls s
            = for_each (reconcile_layer depth ld) (filter has_input_list ls) s" for s
    by (rule for_each_filter) (rule skip)
  consider "filter has_input_list ls = []" | m where "filter has_input_list ls = [m]"
    using assms(1) by (cases "filter has_input_list ls") (auto simp: length_Suc_conv)
  then show ?thesis
  proof cases
    case 1
    then show ?thesis using assms(2) by (simp add: eq)
  next
    case 2
    then have "reconcile_layer depth ld m sl = Inr sl1"
      using assms(2) by (simp add: eq split: sum.splits)
    then have "reconcile_layer depth ld m sl1 = Inr sl1" by (rule reconcile_layer_idem)
    then show ?thesis using 2 by (simp add: eq)
  qed
qed

section \<open>The sweep returns\<close>

lemma written_Suc_wstep:
  "written (Suc d) ld l skip = concat_err (wstep (written d ld) ld skip) (input_list (input l))"
  by (simp add: wstep_def[abs_def])

lemma wstep_mono:
  assumes "wstep r ld skip t = Inr a"
    and "\<And>l ns. r l True = Inr ns \<Longrightarrow> r' l True = Inr ns"
  shows "wstep r' ld skip t = Inr a"
proof (cases "skip \<and> is_input_layer t")
  case True
  then show ?thesis using assms(1) by (simp add: wstep_def)
next
  case False
  then obtain l where l: "getitem ld (get_iname t) = Inr l"
    using assms(1) by (cases "getitem ld (get_iname t)") (auto simp: wstep_def bind_err_def)
  obtain b where b: "is_shift_layer l = Inr b"
    using assms(1) False l by (cases "is_shift_layer l") (auto simp: wstep_def bind_err_def)
  show ?thesis
  proof (cases b)
    case True
    then show ?thesis using assms(1) False l b by (auto simp: wstep_def bind_err_def)
  next
    case nb: False
    then obtain ns where ns: "r l True = Inr ns"
      using assms(1) False l b by (cases "r l True") (auto simp: wstep_def bind_err_def)
    have "r' l True = Inr ns" by (rule assms(2)[OF ns])
    then show ?thesis using assms(1) False l b nb ns by (auto simp: wstep_def bind_err_def)
  qed
qed

lemma concat_err_mono:
  assumes "concat_err f ts = Inr ns"
    and "\<And>t a. t \<in> set ts \<Longrightarrow> f t = Inr a \<Longrightarrow> g t = Inr a"
  shows "concat_err g ts = Inr ns"
  using assms
proof (induction ts arbitrary: ns)
  case Nil
  then show ?case by simp
next
  case (Cons t ts)
  from Cons.prems(1) obtain a b where a: "f t = Inr a" and b: "concat_err f ts = Inr b"
    and ns: "ns = a @ b" by (auto split: sum.splits)
  have "g t = Inr a" using Cons.prems(2)[of t a] a by simp
  moreover have "concat_err g ts = Inr b" using Cons.IH[OF b] Cons.prems(2) by simp
  ultimately show ?case using ns by simp
qed

lemma written_Suc:
  "written depth ld l skip = Inr ns \<Longrightarrow> written (Suc depth) ld l skip = Inr ns"
proof (induction depth arbitrary: l skip ns)
  case 0
  then show ?case by simp
next
  case (Suc depth)
  have c: "concat_err (wstep (written depth ld) ld skip) (input_list (input l)) = Inr ns"
    using Suc.prems by (simp only: written_Suc_wstep)
  have "concat_err (wstep (written (Suc depth) ld) ld skip) (input_list (input l)) = Inr ns"
  proof (rule concat_err_mono[OF c])
    fix t a
    assume "wstep (written depth ld) ld skip t = Inr a"
    then show "wstep (written (Suc depth) ld) ld skip t = Inr a"
      by (rule wstep_mono) (rule Suc.IH)
  qed
  then show ?case by (simp only: written_Suc_wstep)
qed

lemma written_mono:
  assumes "depth \<le> depth'" and "written depth ld l skip = Inr ns"
  shows "written depth' ld l skip = Inr ns"
  using assms
proof (induction rule: dec_induct)
  case base
  then show ?case .
next
  case (step n)
  then have "written n ld l skip = Inr ns" by blast
  then show ?case by (rule written_Suc)
qed

lemma concat_err_total:
  fixes f :: "nat \<Rightarrow> 'a \<Rightarrow> error + 'b list"
  assumes "\<forall>t \<in> set ts. \<exists>d a. f d t = Inr a"
    and "\<And>d d' t a. f d t = Inr a \<Longrightarrow> d \<le> d' \<Longrightarrow> f d' t = Inr a"
  shows "\<exists>d ns. concat_err (f d) ts = Inr ns"
  using assms(1)
proof (induction ts)
  case Nil
  then show ?case by simp
next
  case (Cons t ts)
  then obtain d1 a where a: "f d1 t = Inr a" by auto
  from Cons obtain d2 b where b: "concat_err (f d2) ts = Inr b" by auto
  have "f (max d1 d2) t = Inr a" by (rule assms(2)[OF a]) simp
  moreover have "concat_err (f (max d1 d2)) ts = Inr b"
  proof (rule concat_err_mono[OF b])
    fix u c assume "f d2 u = Inr c"
    then show "f (max d1 d2) u = Inr c" by (rule assms(2)) simp
  qed
  ultimately have "concat_err (f (max d1 d2)) (t # ts) = Inr (a @ b)" by simp
  then show ?case by blast
qed

lemma chains_end_written:
  "chains_end ld skip l \<Longrightarrow> \<exists>depth ns. written depth ld l skip = Inr ns"
proof (induction rule: chains_end.induct)
  case (1 l skip)
  have each: "\<forall>t \<in> set (input_list (input l)). \<exists>d a. wstep (written d ld) ld skip t = Inr a"
  proof
    fix t assume t: "t \<in> set (input_list (input l))"
    show "\<exists>d a. wstep (written d ld) ld skip t = Inr a"
    proof (cases "skip \<and> is_input_layer t")
      case True
      then show ?thesis by (simp add: wstep_def)
    next
      case False
      with 1 t obtain l' where l': "map_of ld (get_iname t) = Some l'"
        and c: "is_shift_layer l' = Inr True \<or>
                (is_shift_layer l' = Inr False \<and> (\<exists>depth ns. written depth ld l' True = Inr ns))"
        by blast
      from c show ?thesis
      proof
        assume "is_shift_layer l' = Inr True"
        then show ?thesis using False l' by (auto simp: wstep_def bind_err_def getitem_def)
      next
        assume "is_shift_layer l' = Inr False \<and> (\<exists>depth ns. written depth ld l' True = Inr ns)"
        then obtain d ns where "is_shift_layer l' = Inr False" "written d ld l' True = Inr ns"
          by blast
        then have "wstep (written d ld) ld skip t = Inr (get_iname t # ns)"
          using False l' by (auto simp: wstep_def bind_err_def getitem_def)
        then show ?thesis by blast
      qed
    qed
  qed
  have "\<exists>d ns. concat_err (wstep (written d ld) ld skip) (input_list (input l)) = Inr ns"
  proof (rule concat_err_total[where f = "\<lambda>d. wstep (written d ld) ld skip", OF each])
    fix d d' t a
    assume a: "wstep (written d ld) ld skip t = Inr a" and le: "d \<le> d'"
    show "wstep (written d' ld) ld skip t = Inr a"
      by (rule wstep_mono[OF a]) (rule written_mono[OF le])
  qed
  then obtain d ns where "concat_err (wstep (written d ld) ld skip) (input_list (input l)) = Inr ns"
    by blast
  then have "written (Suc d) ld l skip = Inr ns" by (simp only: written_Suc_wstep)
  then show ?case by blast
qed

lemma wstep_Inr:
  assumes "wstep r ld skip t = Inr a"
  shows "(skip \<and> is_input_layer t \<and> a = []) \<or>
         (\<not> (skip \<and> is_input_layer t) \<and>
          (\<exists>l. map_of ld (get_iname t) = Some l \<and>
            ((is_shift_layer l = Inr True \<and> a = [get_iname t]) \<or>
             (is_shift_layer l = Inr False \<and>
              (\<exists>ns. r l True = Inr ns \<and> a = get_iname t # ns)))))"
  using assms unfolding wstep_def
  by (auto simp: bind_err_def getitem_def split: if_splits sum.splits option.splits)

lemma written_chains_end:
  "written depth ld l skip = Inr ns \<Longrightarrow> chains_end ld skip l"
proof (induction depth arbitrary: l skip ns)
  case 0
  then show ?case by simp
next
  case (Suc depth)
  have c: "concat_err (wstep (written depth ld) ld skip) (input_list (input l)) = Inr ns"
    using Suc.prems by (simp only: written_Suc_wstep)
  show ?case
  proof (rule chains_end.intros, intro ballI impI)
    fix t assume t: "t \<in> set (input_list (input l))" and ns: "\<not> (skip \<and> is_input_layer t)"
    from concat_err_subset[OF c t] obtain a where
      a: "wstep (written depth ld) ld skip t = Inr a" by blast
    from wstep_Inr[OF a] ns obtain l' where l': "map_of ld (get_iname t) = Some l'"
      and d: "is_shift_layer l' = Inr True \<or>
              (is_shift_layer l' = Inr False \<and> (\<exists>ns. written depth ld l' True = Inr ns))"
      by blast
    from d have "is_shift_layer l' = Inr True \<or>
              (is_shift_layer l' = Inr False \<and> chains_end ld True l')"
      using Suc.IH by blast
    then show "\<exists>l'. map_of ld (get_iname t) = Some l' \<and>
         (is_shift_layer l' = Inr True \<or>
          (is_shift_layer l' = Inr False \<and> chains_end ld True l'))"
      using l' by blast
  qed
qed

lemma Qmin_loop_total:
  fixes sl :: shift_list
  assumes "\<forall>t \<in> set ts. map_of sl (get_iname t) \<noteq> None"
  shows "\<exists>q. for_each (\<lambda>inp Qmin. bind_err (getitem sl (get_iname inp)) (\<lambda>v. Inr (min Qmin v)))
             ts q0 = Inr q"
  using assms by (induction ts arbitrary: q0) (auto simp: bind_err_def getitem_def)

lemma determine_Qmin_total:
  assumes "ts \<noteq> []" and "\<forall>t \<in> set ts. map_of sl (get_iname t) \<noteq> None"
  shows "\<exists>q. determine_Qmin sl ts = Inr q"
proof -
  obtain t0 ts' where ts: "ts = t0 # ts'" using assms(1) by (cases ts) auto
  obtain q0 where q0: "map_of sl (get_iname t0) = Some q0" using assms(2) ts by auto
  from Qmin_loop_total[OF assms(2), of q0] obtain q where
    "for_each (\<lambda>inp Qmin. bind_err (getitem sl (get_iname inp)) (\<lambda>v. Inr (min Qmin v)))
             ts q0 = Inr q" by blast
  then show ?thesis
    unfolding determine_Qmin_def using q0 ts by (auto simp: bind_err_def getitem_def)
qed

lemma reconcile_layer_returns:
  assumes "input l = TensorList ts" and "ts \<noteq> []"
    and "\<forall>t \<in> set ts. map_of sl (get_iname t) \<noteq> None"
    and "written d ld l False = Inr ns" and "d \<le> depth"
    and "is_shift_layer l = Inr b"
    and "b \<longrightarrow> map_of sl (name l) \<noteq> None \<or> pushed ld False l (name l)"
  shows "\<exists>sl'. reconcile_layer depth ld l sl = Inr sl'"
proof -
  obtain q where q: "determine_Qmin sl ts = Inr q"
    using determine_Qmin_total[OF assms(2,3)] by blast
  have w: "written depth ld l False = Inr ns" by (rule written_mono[OF assms(5,4)])
  have own: "b \<longrightarrow> map_of (push_all q ns sl) (name l) \<noteq> None"
    using assms(7) pushed_written[OF w] by (auto simp: map_of_push_all)
  show ?thesis
    unfolding reconcile_layer_def update_previous_layer_shift_written
    using assms(1,6) q w own
    by (auto simp: bind_err_def getitem_def split: option.splits)
qed

lemma reconcile_layer_dom:
  assumes "reconcile_layer depth ld l sl = Inr sl'" and "map_of sl n \<noteq> None"
  shows "map_of sl' n \<noteq> None"
proof (cases "input l")
  case (Tensor t)
  then show ?thesis using assms by (simp add: reconcile_layer_Tensor)
next
  case (TensorList ts)
  from reconcile_layer_map[OF assms(1) TensorList] obtain q where
    p: "\<forall>n. pushed ld False l n \<longrightarrow> map_of sl' n = Some q"
    and f: "\<forall>n. \<not> pushed ld False l n \<and> n \<noteq> name l \<longrightarrow> map_of sl' n = map_of sl n"
    and o: "map_of sl' (name l) = Some q \<or> map_of sl' (name l) = map_of sl (name l)"
    by blast
  show ?thesis
  proof (cases "pushed ld False l n")
    case True
    then show ?thesis using p by simp
  next
    case False
    then show ?thesis using f o assms(2) by (cases "n = name l") auto
  qed
qed

lemma sweep_returns:
  assumes "\<forall>l \<in> set ls. \<forall>ts. input l = TensorList ts \<longrightarrow>
             ts \<noteq> [] \<and> chains_end ld False l \<and> (\<exists>b. is_shift_layer l = Inr b)"
  shows "\<exists>d. \<forall>depth \<ge> d. \<forall>sl.
           (\<forall>l \<in> set ls. \<forall>ts. input l = TensorList ts \<longrightarrow>
              (\<forall>t \<in> set ts. map_of sl (get_iname t) \<noteq> None) \<and> map_of sl (name l) \<noteq> None)
           \<longrightarrow> (\<exists>sl'. for_each (reconcile_layer depth ld) ls sl = Inr sl')"
  using assms
proof (induction ls)
  case Nil
  then show ?case by simp
next
  case (Cons l ls)
  from Cons obtain d2 where d2: "\<forall>depth \<ge> d2. \<forall>sl.
           (\<forall>l \<in> set ls. \<forall>ts. input l = TensorList ts \<longrightarrow>
              (\<forall>t \<in> set ts. map_of sl (get_iname t) \<noteq> None) \<and> map_of sl (name l) \<noteq> None)
           \<longrightarrow> (\<exists>sl'. for_each (reconcile_layer depth ld) ls sl = Inr sl')"
    by auto
  have "\<exists>d1. \<forall>depth \<ge> d1. \<forall>sl.
          (\<forall>ts. input l = TensorList ts \<longrightarrow>
              (\<forall>t \<in> set ts. map_of sl (get_iname t) \<noteq> None) \<and> map_of sl (name l) \<noteq> None)
          \<longrightarrow> (\<exists>sl'. reconcile_layer depth ld l sl = Inr sl')"
  proof (cases "input l")
    case (Tensor t)
    then show ?thesis by (simp add: reconcile_layer_Tensor)
  next
    case (TensorList ts)
    with Cons.prems obtain b where ne: "ts \<noteq> []" and ce: "chains_end ld False l"
      and b: "is_shift_layer l = Inr b" by auto
    from chains_end_written[OF ce] obtain d ns where w: "written d ld l False = Inr ns" by blast
    show ?thesis
    proof (intro exI[of _ d] allI impI)
      fix depth and sl :: shift_list
      assume le: "d \<le> depth"
        and c: "\<forall>ts. input l = TensorList ts \<longrightarrow>
              (\<forall>t \<in> set ts. map_of sl (get_iname t) \<noteq> None) \<and> map_of sl (name l) \<noteq> None"
      show "\<exists>sl'. reconcile_layer depth ld l sl = Inr sl'"
        using reconcile_layer_returns[OF TensorList ne _ w le b] c TensorList by blast
    qed
  qed
  then obtain d1 where d1: "\<forall>depth \<ge> d1. \<forall>sl.
          (\<forall>ts. input l = TensorList ts \<longrightarrow>
              (\<forall>t \<in> set ts. map_of sl (get_iname t) \<noteq> None) \<and> map_of sl (name l) \<noteq> None)
          \<longrightarrow> (\<exists>sl'. reconcile_layer depth ld l sl = Inr sl')" by blast
  show ?case
  proof (intro exI[of _ "max d1 d2"] allI impI)
    fix depth and sl :: shift_list
    assume le: "max d1 d2 \<le> depth"
      and c: "\<forall>l \<in> set (l # ls). \<forall>ts. input l = TensorList ts \<longrightarrow>
              (\<forall>t \<in> set ts. map_of sl (get_iname t) \<noteq> None) \<and> map_of sl (name l) \<noteq> None"
    have le1: "d1 \<le> depth" and le2: "d2 \<le> depth" using le by simp_all
    have cl: "\<forall>ts. input l = TensorList ts \<longrightarrow>
              (\<forall>t \<in> set ts. map_of sl (get_iname t) \<noteq> None) \<and> map_of sl (name l) \<noteq> None"
      using c by simp
    from d1 le1 cl obtain sl1 where s1: "reconcile_layer depth ld l sl = Inr sl1" by blast
    have "\<forall>l \<in> set ls. \<forall>ts. input l = TensorList ts \<longrightarrow>
              (\<forall>t \<in> set ts. map_of sl1 (get_iname t) \<noteq> None) \<and> map_of sl1 (name l) \<noteq> None"
      using c reconcile_layer_dom[OF s1] by auto
    with d2 le2 obtain sl' where "for_each (reconcile_layer depth ld) ls sl1 = Inr sl'" by blast
    then show "\<exists>sl'. for_each (reconcile_layer depth ld) (l # ls) sl = Inr sl'"
      using s1 by simp
  qed
qed

lemma layers_output_ranges_returns:
  assumes "\<forall>l \<in> set (tl layers). \<forall>ts. input l = TensorList ts \<longrightarrow>
             ts \<noteq> [] \<and> chains_end (layer_dict layers) False l \<and> (\<exists>b. is_shift_layer l = Inr b)
             \<and> (\<forall>t \<in> set ts. map_of sl (get_iname t) \<noteq> None) \<and> map_of sl (name l) \<noteq> None"
  shows "\<exists>d. \<forall>depth \<ge> d. \<exists>sl'. layers_output_ranges depth layers sl = Inr sl'"
proof -
  have "\<forall>l \<in> set (rev (tl layers)). \<forall>ts. input l = TensorList ts \<longrightarrow>
             ts \<noteq> [] \<and> chains_end (layer_dict layers) False l \<and> (\<exists>b. is_shift_layer l = Inr b)"
    using assms by simp
  from sweep_returns[OF this] obtain d where d: "\<forall>depth \<ge> d. \<forall>sl.
           (\<forall>l \<in> set (rev (tl layers)). \<forall>ts. input l = TensorList ts \<longrightarrow>
              (\<forall>t \<in> set ts. map_of sl (get_iname t) \<noteq> None) \<and> map_of sl (name l) \<noteq> None)
           \<longrightarrow> (\<exists>sl'. for_each (reconcile_layer depth (layer_dict layers)) (rev (tl layers)) sl
                        = Inr sl')" by blast
  have c: "\<forall>l \<in> set (rev (tl layers)). \<forall>ts. input l = TensorList ts \<longrightarrow>
              (\<forall>t \<in> set ts. map_of sl (get_iname t) \<noteq> None) \<and> map_of sl (name l) \<noteq> None"
    using assms by simp
  show ?thesis
    unfolding layers_output_ranges_def using d c by blast
qed

section \<open>The sweep on the example graphs\<close>

lemmas graph_defs =
  two_branch_graph_def two_branch_table_def residual_graph_def residual_table_def
  pooled_input_graph_def pooled_input_table_def sigmoid_layer_def sigmoid_mul_graph_def sigmoid_mul_table_def
  softmax_merge_def softmax_merge_graph_def softmax_merge_table_def tail_graph_def tail_table_def

lemma two_branch_sweep:
  "layers_output_ranges 1000 two_branch_graph two_branch_table =
     Inr [(''input_1'', 7), (''conv2d'', 3), (''max_pooling2d'', 3), (''conv2d_1'', 3), (''add'', 3)]"
  by (simp add: graph_defs eval_defs)

lemma residual_sweep:
  "layers_output_ranges 1000 residual_graph residual_table =
     Inr [(''input_1'', 4), (''conv2d'', 4), (''add'', 4)]"
  by (simp add: graph_defs eval_defs)

lemma pooled_sweep:
  "layers_output_ranges 1000 pooled_input_graph pooled_input_table =
     Inr [(''input_1'', 7), (''max_pooling2d'', 4), (''conv2d'', 4), (''add'', 4)]"
  by (simp add: graph_defs eval_defs)

lemma sigmoid_mul_sweep:
  "layers_output_ranges 1000 sigmoid_mul_graph sigmoid_mul_table =
     Inr [(''input_1'', 7), (''conv2d'', 5), (''activation'', 3), (''conv2d_1'', 3), (''multiply'', 2)]"
  by (simp add: graph_defs eval_defs)

lemma softmax_merge_sweep:
  "layers_output_ranges 1000 softmax_merge_graph softmax_merge_table =
     Inr [(''input_1'', 7), (''conv2d'', 5), (''conv2d_1'', 5), (''softmax_merge'', 5)]"
  by (simp add: graph_defs eval_defs)

lemma tail_sweep:
  "layers_output_ranges 1000 tail_graph tail_table =
     Inr [(''input_1'', 7), (''conv2d'', 3), (''conv2d_1'', 3), (''add'', 3), (''activation'', 7)]"
  by (simp add: graph_defs eval_defs)

lemma shared_second_sweep:
  "layers_output_ranges 1000 shared_graph
     [(''input_1'', 7), (''conv2d'', 3), (''conv2d_1'', 3), (''conv2d_2'', 5),
      (''add'', 2), (''add_1'', 4)] =
   Inr [(''input_1'', 7), (''conv2d'', 3), (''conv2d_1'', 3), (''conv2d_2'', 3),
        (''add'', 2), (''add_1'', 3)]"
  by (simp add: shared_graph_def eval_defs)

lemma written_add_two_branch:
  "written 1000 (layer_dict two_branch_graph)
     (graph_layer ''add'' (TensorList [''max_pooling2d/MaxPool:0'', ''conv2d_1/BiasAdd:0''])) False
   = Inr [''max_pooling2d'', ''conv2d'', ''conv2d_1'']"
  by (simp add: graph_defs eval_defs)

lemma written_add_tail:
  "written 1000 (layer_dict tail_graph)
     (graph_layer ''add'' (TensorList [''conv2d/BiasAdd:0'', ''conv2d_1/BiasAdd:0''])) False
   = Inr [''conv2d'', ''conv2d_1'']"
  by (simp add: graph_defs eval_defs)

lemma written_softmax_merge:
  "written 1000 (layer_dict softmax_merge_graph) softmax_merge False
   = Inr [''conv2d'', ''conv2d_1'']"
  by (simp add: graph_defs eval_defs)

lemma softmax_merge_step:
  "reconcile_layer 1000 (layer_dict softmax_merge_graph) softmax_merge softmax_merge_table =
     Inr [(''input_1'', 7), (''conv2d'', 5), (''conv2d_1'', 5), (''softmax_merge'', 5)]"
  by (simp add: graph_defs eval_defs)

section \<open>The claims\<close>

text \<open>
  C1. After the backward sweep every direct predecessor of an add, subtract or multiply
  node should carry the same fractional bits; the emitter relies on it (it reads the
  first input only, "they have been set to same"). On the graph \<open>shared_graph\<close> the
  sweep reconciles \<open>add_1\<close> first (both inputs 5) and then \<open>add\<close>, which lowers the
  shared \<open>conv2d_1\<close> to 3: in the final table the two direct predecessors of \<open>add_1\<close>,
  \<open>conv2d_1\<close> and \<open>conv2d_2\<close>, carry 3 and 5.
\<close>

theorem shared_ancestor_predecessors_differ:
  "layers_output_ranges 1000 shared_graph shared_table =
     Inr [(''input_1'', 7), (''conv2d'', 3), (''conv2d_1'', 3), (''conv2d_2'', 5),
          (''add'', 2), (''add_1'', 4)]
   \<and> map_of [(''input_1'', 7), (''conv2d'', 3), (''conv2d_1'', 3), (''conv2d_2'', 5),
              (''add'', 2), (''add_1'', 4::int)] (get_iname ''conv2d_1/BiasAdd:0'') = Some 3
   \<and> map_of [(''input_1'', 7), (''conv2d'', 3), (''conv2d_1'', 3), (''conv2d_2'', 5),
              (''add'', 2), (''add_1'', 4::int)] (get_iname ''conv2d_2/BiasAdd:0'') = Some 5"
  by (simp add: shared_graph_def shared_table_def eval_defs)





text \<open>
  C8 (as stated). A negative alignment would always make the bias reuse the kernel's
  fractional bits. With an input format of -2, kernel bits 5 and bias bits 4 the alignment
  is -1, and the bias keeps its own 4 bits: the code lowers the bias only when its bits
  exceed the kernel's.
\<close>

theorem negative_alignment_bias_keeps_own_bits:
  "own_dec_bits kernel_example = 5 \<and> own_dec_bits bias_example = 4
   \<and> (- 2) + own_dec_bits kernel_example - own_dec_bits bias_example < 0
   \<and> for_each (quantize_var (Some [(''input_1'', - 2), (''conv2d'', 0)]) wide_conv)
        (weights wide_conv) (0, []) =
      Inr (5, [(''conv2d/kernel:0'',
                \<lparr>min_value = - 1, max_value = 3, data_width = 5, quantized = [96, - 32]\<rparr>),
               (''conv2d/bias:0'',
                \<lparr>min_value = 0, max_value = 5, data_width = 4, quantized = [80, 0]\<rparr>)])"
proof -
  have r: "for_each (quantize_var (Some [(''input_1'', - 2), (''conv2d'', 0)]) wide_conv)
        (weights wide_conv) (0, []) =
      Inr (5, [(''conv2d/kernel:0'',
                \<lparr>min_value = - 1, max_value = 3, data_width = 5, quantized = [96, - 32]\<rparr>),
               (''conv2d/bias:0'',
                \<lparr>min_value = 0, max_value = 5, data_width = 4, quantized = [80, 0]\<rparr>)])"
    by (simp add: wide_conv_def kernel_example_def bias_example_def quant_defs eval_defs ib5 ib6)
  show ?thesis
    using r by (simp add: own_dec_bits_kernel_example own_dec_bits_bias_example)
qed

text \<open>
  C8 (amended). For a layer classified as a shift layer (convolution or dense by name)
  with calibration present, the kernel is recorded with the fractional bits of its own
  range, and the bias is recorded with the kernel's bits when the alignment
  \<open>input_shift + kernel_bits - bias_bits\<close> is negative and the bias's own bits exceed
  the kernel's, and with its own bits otherwise. When the input format is not negative,
  a negative alignment alone decides.
\<close>

theorem bias_reuses_kernel_bits:
  assumes "is_shift_layer l = Inr True" and "input l = Tensor t"
    and "map_of sl (input_iname t) = Some input_shift"
    and "sublist ''kernel'' (var_name k)" and "var_values k \<noteq> []"
    and "\<not> sublist ''kernel'' (var_name b)" and "sublist ''bias'' (var_name b)"
    and "var_values b \<noteq> []"
  shows "\<exists>w info. for_each (quantize_var (Some sl) l) [k, b] (0, []) = Inr (w, info)
           \<and> map_option data_width (map_of info (var_name k)) = Some (own_dec_bits k)
           \<and> map_option data_width (map_of info (var_name b)) =
               Some (if input_shift + own_dec_bits k - own_dec_bits b < 0
                        \<and> own_dec_bits k < own_dec_bits b
                     then own_dec_bits k else own_dec_bits b)
           \<and> (0 \<le> input_shift \<longrightarrow>
                map_option data_width (map_of info (var_name b)) =
                  Some (if input_shift + own_dec_bits k - own_dec_bits b < 0
                        then own_dec_bits k else own_dec_bits b))"
proof -
  have ne: "var_name k \<noteq> var_name b" using assms(4,6) by auto
  show ?thesis
    using ne
    by (simp add: quantize_var_kernel[OF assms(1,2,3,4,5)]
        quantize_var_bias[OF assms(1,2,3,6,7,8)] update_conv')
qed

text \<open>C8, an instance: input format 2, kernel bits 5 and a small bias with 10 bits of its own; the bias is recorded with 5.\<close>

theorem bias_reuses_kernel_bits_witness:
  "is_shift_layer wide_conv = Inr True \<and> input wide_conv = Tensor ''input_1''
   \<and> map_of [(''input_1'', 2), (''conv2d'', 0::int)] (input_iname ''input_1'') = Some 2
   \<and> sublist ''kernel'' (var_name kernel_example) \<and> var_values kernel_example \<noteq> []
   \<and> \<not> sublist ''kernel'' (var_name small_bias) \<and> sublist ''bias'' (var_name small_bias)
   \<and> var_values small_bias \<noteq> []
   \<and> own_dec_bits kernel_example = 5 \<and> own_dec_bits small_bias = 10
   \<and> (\<exists>w info. for_each (quantize_var (Some [(''input_1'', 2), (''conv2d'', 0)]) wide_conv)
                   [kernel_example, small_bias] (0, []) = Inr (w, info)
         \<and> map_option data_width (map_of info (var_name kernel_example)) = Some 5
         \<and> map_option data_width (map_of info (var_name small_bias)) = Some 5)"
proof -
  have h1: "is_shift_layer wide_conv = Inr True" by (simp add: wide_conv_def eval_defs)
  have h2: "input wide_conv = Tensor ''input_1''" by (simp add: wide_conv_def)
  have h3: "map_of [(''input_1'', 2), (''conv2d'', 0::int)] (input_iname ''input_1'') = Some 2"
    by (simp add: input_iname_def)
  have h4: "sublist ''kernel'' (var_name kernel_example)"
    by (simp add: kernel_example_def eval_defs)
  have h5: "var_values kernel_example \<noteq> []" by (simp add: kernel_example_def)
  have h6: "\<not> sublist ''kernel'' (var_name small_bias)" by (simp add: small_bias_def eval_defs)
  have h7: "sublist ''bias'' (var_name small_bias)" by (simp add: small_bias_def eval_defs)
  have h8: "var_values small_bias \<noteq> []" by (simp add: small_bias_def)
  have b: "own_dec_bits small_bias = 10" by (simp add: own_dec_bits_def small_bias_def ib4)
  show ?thesis
    using bias_reuses_kernel_bits[OF h1 h2 h3 h4 h5 h6 h7 h8] h1 h2 h3 h4 h5 h6 h7 h8
    by (auto simp: own_dec_bits_kernel_example b)
qed




text \<open>
  C10 (as stated). A batch normalization directly after a dense layer would pass the
  check, dense being a weighted layer. The check looks for \<open>conv\<close> in the predecessor's
  name, and \<^verbatim>\<open>generate_weights\<close> aborts on that graph.
\<close>

theorem bn_after_dense_rejected:
  "generate_weights 1000 weights dense_bn_graph (Some dense_bn_table) = Inl TypeError"
  by (simp add: dense_bn_graph_def dense_bn_table_def dense_example_def bn_example_def
      quant_defs eval_defs ib3 ib4)

text \<open>
  C10 (amended). The check on a layer passes exactly when the layer's name does not
  contain \<open>batch_normalization\<close> or its predecessor is a single layer whose name
  contains \<open>conv\<close> (a dense predecessor is rejected as well); and \<^verbatim>\<open>generate_weights\<close>
  raises an exception whenever some layer with weights fails the check.
\<close>

theorem bn_after_conv_check:
  "(check_bn_after_conv l = Inr () \<longleftrightarrow>
      (sublist ''batch_normalization'' (name l) \<longrightarrow>
         (\<exists>p. inbound_layers l = OneLayer p \<and> sublist ''conv'' p)))
   \<and> ((\<exists>l \<in> set layers. weights l \<noteq> [] \<and> sublist ''batch_normalization'' (name l)
          \<and> \<not> (\<exists>p. inbound_layers l = OneLayer p \<and> sublist ''conv'' p))
        \<longrightarrow> (\<exists>e. generate_weights depth fuse layers x_test = Inl e))"
proof (intro conjI impI)
  show "check_bn_after_conv l = Inr () \<longleftrightarrow>
      (sublist ''batch_normalization'' (name l) \<longrightarrow>
         (\<exists>p. inbound_layers l = OneLayer p \<and> sublist ''conv'' p))"
    by (rule check_bn_after_conv_ok)
next
  assume "\<exists>l \<in> set layers. weights l \<noteq> [] \<and> sublist ''batch_normalization'' (name l)
          \<and> \<not> (\<exists>p. inbound_layers l = OneLayer p \<and> sublist ''conv'' p)"
  then obtain b where b: "b \<in> set layers" "weights b \<noteq> []"
    "sublist ''batch_normalization'' (name b)"
    "\<not> (\<exists>p. inbound_layers b = OneLayer p \<and> sublist ''conv'' p)" by blast
  have bad: "check_bn_after_conv b \<noteq> Inr ()"
    using b(3,4) by (simp add: check_bn_after_conv_ok)
  have loop: "\<exists>e. for_each (generate_layer_weights fuse sl) layers [] = Inl e" for sl
    by (rule for_each_error[OF b(1)]) (rule generate_layer_weights_bn_error[OF b(2) bad])
  show "\<exists>e. generate_weights depth fuse layers x_test = Inl e"
  proof (cases "case x_test of None \<Rightarrow> Inr None
        | Some initial \<Rightarrow> bind_err (layers_output_ranges depth layers initial) (\<lambda>sl. Inr (Some sl))")
    case (Inl e)
    then show ?thesis unfolding generate_weights_def bind_err_def by simp
  next
    case (Inr sl)
    obtain e where "for_each (generate_layer_weights fuse sl) layers [] = Inl e"
      using loop by blast
    then show ?thesis using Inr unfolding generate_weights_def bind_err_def by simp
  qed
qed

text \<open>C10, an instance: the batch normalization after a dense layer.\<close>

theorem bn_after_conv_check_witness:
  "check_bn_after_conv bn_example \<noteq> Inr ()
   \<and> (\<exists>l \<in> set dense_bn_graph. weights l \<noteq> [] \<and> sublist ''batch_normalization'' (name l)
          \<and> \<not> (\<exists>p. inbound_layers l = OneLayer p \<and> sublist ''conv'' p))
   \<and> (\<exists>e. generate_weights 1000 weights dense_bn_graph (Some dense_bn_table) = Inl e)"
proof -
  have h: "\<exists>l \<in> set dense_bn_graph. weights l \<noteq> [] \<and> sublist ''batch_normalization'' (name l)
          \<and> \<not> (\<exists>p. inbound_layers l = OneLayer p \<and> sublist ''conv'' p)"
    by (simp add: dense_bn_graph_def bn_example_def dense_example_def eval_defs)
  have c: "check_bn_after_conv bn_example \<noteq> Inr ()"
    using bn_after_conv_check[of bn_example "[]" 0 weights None]
    by (simp add: bn_example_def eval_defs)
  show ?thesis
    using bn_after_conv_check[of bn_example dense_bn_graph 1000 weights "Some dense_bn_table"] h c
    by blast
qed



text \<open>
  C3 (as stated). The sweep would never alter the entry of a format-fixed node. A sigmoid
  activation calibrated to 7 that feeds a multiply next to a convolution at 3 ends at 3;
  and a merge layer with \<open>softmax\<close> in its name, calibrated to 7 with inputs at 5, is
  lowered to 5.
\<close>

theorem format_fixed_predecessor_overwritten:
  "is_shift_fixed (sigmoid_layer ''conv2d/BiasAdd:0'') = Inr True
   \<and> map_of sigmoid_mul_table (name (sigmoid_layer ''conv2d/BiasAdd:0'')) = Some 7
   \<and> layers_output_ranges 1000 sigmoid_mul_graph sigmoid_mul_table =
       Inr [(''input_1'', 7), (''conv2d'', 5), (''activation'', 3), (''conv2d_1'', 3),
            (''multiply'', 2)]
   \<and> is_shift_fixed softmax_merge = Inr True
   \<and> map_of softmax_merge_table (name softmax_merge) = Some 7
   \<and> layers_output_ranges 1000 softmax_merge_graph softmax_merge_table =
       Inr [(''input_1'', 7), (''conv2d'', 5), (''conv2d_1'', 5), (''softmax_merge'', 5)]"
  using sigmoid_mul_sweep softmax_merge_sweep by (simp add: graph_defs eval_defs)

text \<open>
  C3 (amended). A format-fixed node is a shift layer, so the recursion never continues
  through it. The sweep leaves its entry as it is when the node is on no predecessor chain
  of a node with a list input and is not such a node itself. As a node with a list input
  (and not on its own chain) it is never raised: its entry becomes the smaller of the target
  and its previous entry.
\<close>

theorem format_fixed_reconciliation:
  assumes "is_shift_fixed f = Inr True"
  shows "is_shift_layer f = Inr True
     \<and> (layers_output_ranges depth layers sl = Inr sl'
          \<and> (\<forall>l \<in> set (tl layers). \<forall>ts. input l = TensorList ts \<longrightarrow>
                \<not> pushed (layer_dict layers) False l (name f) \<and> name f \<noteq> name l)
        \<longrightarrow> map_of sl' (name f) = map_of sl (name f))
     \<and> (reconcile_layer depth ld f tb = Inr tb' \<and> input f = TensorList ts
          \<and> \<not> pushed ld False f (name f)
        \<longrightarrow> (\<exists>q. determine_Qmin tb ts = Inr q
                 \<and> map_of tb' (name f) = map_option (min q) (map_of tb (name f))))"
proof (intro conjI impI)
  show s: "is_shift_layer f = Inr True"
    using assms by (rule is_shift_fixed_is_shift_layer)
  {
    assume a: "layers_output_ranges depth layers sl = Inr sl'
          \<and> (\<forall>l \<in> set (tl layers). \<forall>ts. input l = TensorList ts \<longrightarrow>
                \<not> pushed (layer_dict layers) False l (name f) \<and> name f \<noteq> name l)"
    then have fe: "for_each (reconcile_layer depth (layer_dict layers)) (rev (tl layers)) sl
                     = Inr sl'"
      by (simp add: layers_output_ranges_def)
    have hy: "\<forall>l \<in> set (rev (tl layers)). \<forall>ts. input l = TensorList ts \<longrightarrow>
                \<not> pushed (layer_dict layers) False l (name f) \<and> name f \<noteq> name l"
      using a by simp
    show "map_of sl' (name f) = map_of sl (name f)"
      by (rule sweep_frame[OF fe hy])
  }
  {
    assume a: "reconcile_layer depth ld f tb = Inr tb' \<and> input f = TensorList ts
          \<and> \<not> pushed ld False f (name f)"
    then show "\<exists>q. determine_Qmin tb ts = Inr q
                 \<and> map_of tb' (name f) = map_option (min q) (map_of tb (name f))"
      using reconcile_layer_own[of depth ld f tb tb' ts] s by blast
  }
qed

text \<open>C3, instances: a sigmoid activation after an add, and a merge layer with \<open>softmax\<close> in its name.\<close>

theorem format_fixed_reconciliation_witness:
  "is_shift_fixed (sigmoid_layer ''add/add:0'') = Inr True
   \<and> is_shift_layer (sigmoid_layer ''add/add:0'') = Inr True
   \<and> layers_output_ranges 1000 tail_graph tail_table =
       Inr [(''input_1'', 7), (''conv2d'', 3), (''conv2d_1'', 3), (''add'', 3), (''activation'', 7)]
   \<and> map_of [(''input_1'', 7), (''conv2d'', 3), (''conv2d_1'', 3), (''add'', 3),
              (''activation'', 7::int)] (name (sigmoid_layer ''add/add:0''))
       = map_of tail_table (name (sigmoid_layer ''add/add:0''))
   \<and> is_shift_fixed softmax_merge = Inr True
   \<and> reconcile_layer 1000 (layer_dict softmax_merge_graph) softmax_merge softmax_merge_table =
       Inr [(''input_1'', 7), (''conv2d'', 5), (''conv2d_1'', 5), (''softmax_merge'', 5)]
   \<and> (\<exists>q. determine_Qmin softmax_merge_table [''conv2d/BiasAdd:0'', ''conv2d_1/BiasAdd:0'']
              = Inr q
         \<and> map_of [(''input_1'', 7), (''conv2d'', 5), (''conv2d_1'', 5),
                    (''softmax_merge'', 5::int)] (name softmax_merge)
             = map_option (min q) (map_of softmax_merge_table (name softmax_merge)))"
proof -
  let ?f = "sigmoid_layer ''add/add:0''"
  have f: "is_shift_fixed ?f = Inr True" by (simp add: graph_defs eval_defs)
  have tl: "tl tail_graph =
     [graph_layer ''conv2d'' (Tensor ''input_1''),
      graph_layer ''conv2d_1'' (Tensor ''input_1''),
      graph_layer ''add'' (TensorList [''conv2d/BiasAdd:0'', ''conv2d_1/BiasAdd:0'']),
      sigmoid_layer ''add/add:0'']"
    by (simp add: tail_graph_def)
  have hy: "\<forall>l \<in> set (tl tail_graph). \<forall>ts. input l = TensorList ts \<longrightarrow>
              \<not> pushed (layer_dict tail_graph) False l (name ?f) \<and> name ?f \<noteq> name l"
    unfolding tl using pushed_written[OF written_add_tail]
    by (simp add: graph_layer_def sigmoid_layer_def)
  have g: "is_shift_fixed softmax_merge = Inr True" by (simp add: graph_defs eval_defs)
  have i: "input softmax_merge = TensorList [''conv2d/BiasAdd:0'', ''conv2d_1/BiasAdd:0'']"
    by (simp add: graph_defs eval_defs)
  have np: "\<not> pushed (layer_dict softmax_merge_graph) False softmax_merge (name softmax_merge)"
    using pushed_written[OF written_softmax_merge]
    by (simp add: softmax_merge_def graph_layer_def)
  from format_fixed_reconciliation[OF f, where depth = 1000 and layers = tail_graph
      and sl = tail_table]
    tail_sweep hy
  have a: "is_shift_layer ?f = Inr True"
    and b: "map_of [(''input_1'', 7), (''conv2d'', 3), (''conv2d_1'', 3), (''add'', 3),
              (''activation'', 7::int)] (name ?f) = map_of tail_table (name ?f)"
    by blast+
  from format_fixed_reconciliation[OF g, where depth = 1000
      and ld = "layer_dict softmax_merge_graph" and tb = softmax_merge_table
      and ts = "[''conv2d/BiasAdd:0'', ''conv2d_1/BiasAdd:0'']"]
    softmax_merge_step i np
  have c: "\<exists>q. determine_Qmin softmax_merge_table [''conv2d/BiasAdd:0'', ''conv2d_1/BiasAdd:0'']
              = Inr q
         \<and> map_of [(''input_1'', 7), (''conv2d'', 5), (''conv2d_1'', 5),
                    (''softmax_merge'', 5::int)] (name softmax_merge)
             = map_option (min q) (map_of softmax_merge_table (name softmax_merge))"
    by blast
  show ?thesis using f a tail_sweep b g softmax_merge_step c by blast
qed

text \<open>
  C4 (as stated). The sweep would never rewrite the entry of an input node. The first call
  of the recursion passes \<^verbatim>\<open>skip_input=False\<close>: an input that feeds an add directly,
  calibrated to 7 next to a convolution at 4, ends at 4.
\<close>

theorem direct_input_rewritten:
  "is_input_layer ''input_1''
   \<and> map_of residual_table ''input_1'' = Some 7
   \<and> layers_output_ranges 1000 residual_graph residual_table =
       Inr [(''input_1'', 4), (''conv2d'', 4), (''add'', 4)]"
  using residual_sweep by (simp add: graph_defs eval_defs)

text \<open>
  C4 (amended). The sweep leaves the entry of an input node as calibrated unless the input
  is a direct input of a node with a list input (or is such a node itself): inputs reached
  through predecessors that are not shift layers are skipped.
\<close>

theorem input_rewritten_only_as_direct_input:
  assumes "is_input_layer n"
    and "layers_output_ranges depth layers sl = Inr sl'"
    and "\<forall>l \<in> set (tl layers). \<forall>ts. input l = TensorList ts \<longrightarrow>
           n \<notin> get_iname ` set ts \<and> n \<noteq> name l"
  shows "map_of sl' n = map_of sl n"
proof -
  have fe: "for_each (reconcile_layer depth (layer_dict layers)) (rev (tl layers)) sl = Inr sl'"
    using assms(2) by (simp add: layers_output_ranges_def)
  have hy: "\<forall>l \<in> set (rev (tl layers)). \<forall>ts. input l = TensorList ts \<longrightarrow>
              \<not> pushed (layer_dict layers) False l n \<and> n \<noteq> name l"
  proof (intro ballI allI impI)
    fix l ts assume l: "l \<in> set (rev (tl layers))" and ts: "input l = TensorList ts"
    then have a: "n \<notin> get_iname ` set ts" "n \<noteq> name l" using assms(3) by auto
    have "\<not> pushed (layer_dict layers) False l n"
      using pushed_input_direct[OF _ assms(1), of "layer_dict layers" l] a(1) ts by auto
    then show "\<not> pushed (layer_dict layers) False l n \<and> n \<noteq> name l" using a(2) by simp
  qed
  show ?thesis by (rule sweep_frame[OF fe hy])
qed

text \<open>C4, an instance: an input that reaches an add through a pooling layer only.\<close>

theorem input_rewritten_only_as_direct_input_witness:
  "is_input_layer ''input_1''
   \<and> layers_output_ranges 1000 pooled_input_graph pooled_input_table =
       Inr [(''input_1'', 7), (''max_pooling2d'', 4), (''conv2d'', 4), (''add'', 4)]
   \<and> map_of [(''input_1'', 7), (''max_pooling2d'', 4), (''conv2d'', 4), (''add'', 4::int)]
        ''input_1'' = map_of pooled_input_table ''input_1''"
proof -
  have h1: "is_input_layer ''input_1''" by (simp add: eval_defs)
  have h3: "\<forall>l \<in> set (tl pooled_input_graph). \<forall>ts. input l = TensorList ts \<longrightarrow>
           ''input_1'' \<notin> get_iname ` set ts \<and> ''input_1'' \<noteq> name l"
    by (simp add: graph_defs eval_defs)
  show ?thesis
    using input_rewritten_only_as_direct_input[OF h1 pooled_sweep h3] h1 pooled_sweep by simp
qed




end
